theory Spec2Isabelle
  imports Main "HOL-Library.Word" "HOL-Library.Sublist"
begin

section \<open>Bytes, strings and errors\<close>

text \<open>
  Go's \<^verbatim>\<open>byte\<close> is an 8-bit word whose addition wraps around.  A Go
  \<^verbatim>\<open>string\<close> is a sequence of bytes and \<^verbatim>\<open>len\<close> counts bytes, which is
  what \<^typ>\<open>string\<close> is in HOL.  \<^verbatim>\<open>[]byte(s)\<close> is \<open>bytes_of s\<close>.
\<close>

type_synonym byte = "8 word"

definition bytes_of :: "string \<Rightarrow> byte list" where
  "bytes_of s = map (\<lambda>c. of_nat (of_char c)) s"

text \<open>
  The package's error values (display.go), the error \<^verbatim>\<open>flush\<close> builds for a short
  write, and one value standing for whatever error the serial transport returns.
\<close>

datatype error =
    ErrClosed
  | ErrDisplayNotWorking
  | ErrMsgSizeMismatch
  | ErrWrittenSize
  | ErrTransport

text \<open>The type \<^verbatim>\<open>Line\<close> is Go's \<^verbatim>\<open>int\<close>; \<^verbatim>\<open>byte(line)\<close> keeps its low 8 bits.\<close>

type_synonym Line = int

definition LineOne :: Line where
  "LineOne = 0"

definition LineTwo :: Line where
  "LineTwo = 1"

section \<open>Frame codec\<close>

text \<open>
  \<^verbatim>\<open>checksum\<close>: the loop \<^verbatim>\<open>for _, bb := range b { s += bb }\<close> starting from the
  zero value of the named result, on bytes.
\<close>

definition checksum :: "byte list \<Rightarrow> byte" where
  "checksum b = foldl (\<lambda>s bb. s + bb) 0 b"

text \<open>
  \<^verbatim>\<open>makemsg\<close> copies the message into a fresh slice and appends the checksum of the
  copy.  It is the same function in all three Asustor files.
\<close>

definition makemsg :: "byte list \<Rightarrow> byte list" where
  "makemsg msg = (let data = msg in data @ [checksum data])"

text \<open>\<^verbatim>\<open>prepareTxt\<close> (display.go): cut to 16 bytes, or pad with spaces to 16.\<close>

definition prepareTxt :: "string \<Rightarrow> string" where
  "prepareTxt txt =
     (let l = length txt in
      if l > 16 then take 16 txt
      else if l < 16 then txt @ replicate (16 - l) (CHR '' '')
      else txt)"

text \<open>The protocol constants that \<^verbatim>\<open>NewAsustorLCD\<close> stores in the struct and never changes.\<close>

definition cmdByte :: byte where
  "cmdByte = 240"

definition replyByte :: byte where
  "replyByte = 241"


definition cmdDisplayOff :: "byte list" where
  "cmdDisplayOff = [cmdByte, 1, 17, 0]"


definition cmdDisplayOn :: "byte list" where
  "cmdDisplayOn = [cmdByte, 1, 34, 0]"

definition cmdBtn :: "byte list" where
  "cmdBtn = [cmdByte, 1, 128]"

text \<open>\<^verbatim>\<open>cmdRdy\<close> and \<^verbatim>\<open>cmdMsgSentCheck\<close> of asustor.go (the variant without a lock).\<close>

definition cmdRdy :: "byte list" where
  "cmdRdy = [replyByte, 1]"

definition cmdMsgSentCheck :: "byte list" where
  "cmdMsgSentCheck = cmdRdy @ [39, 0, 25]"




definition replyMsgSentCheck :: "byte list" where
  "replyMsgSentCheck = [replyByte, 1, 39, 0, 25]"


text \<open>
  \<^verbatim>\<open>createMsg\<close> and \<^verbatim>\<open>strToBytes\<close> of the variant with the lock: the header
  \<^verbatim>\<open>{cmdByte, 0x12, 0x27, byte(line), 0}\<close> followed by the prepared text.
\<close>

definition createMsg :: "Line \<Rightarrow> byte list \<Rightarrow> byte list" where
  "createMsg line text = [cmdByte, 18, 39, word_of_int line, 0] @ text"

definition strToBytes :: "Line \<Rightarrow> string \<Rightarrow> byte list" where
  "strToBytes line text = createMsg line (bytes_of (prepareTxt text))"

text \<open>
  \<^verbatim>\<open>strToBytes\<close> of asustor.go: two separate \<^verbatim>\<open>if\<close>s, the second reading the
  length of the text the first may have cut.
\<close>

definition asustorLCD_strToBytes :: "Line \<Rightarrow> string \<Rightarrow> byte list" where
  "asustorLCD_strToBytes line text =
     (let text1 = (if length text > 16 then take 16 text else text);
          text2 = (if length text1 < 16
                   then text1 @ replicate (16 - length text1) (CHR '' '')
                   else text1)
      in [cmdByte, 18, 39, word_of_int line, 0] @ bytes_of text2)"

section \<open>The serial transport and the channels\<close>

text \<open>
  The transport is an external collaborator.  What the code asks of it is kept as a trace
  of calls (\<open>iolog\<close>, oldest first); what it answers is a parameter of each operation:
  \<^item> \<^verbatim>\<open>con.Write(data)\<close> returns \<^verbatim>\<open>(n, err)\<close>: a \<open>wres\<close> is \<open>(n, err \<noteq> nil)\<close>;
  \<^item> \<^verbatim>\<open>con.Read(res)\<close> returns an error (\<open>RErr\<close>) or places the bytes \<open>d\<close> at the front
    of the zeroed buffer (\<open>RData d\<close>), so that \<open>n = min (len res) (length d)\<close>.
  Sleeping between writes (\<^verbatim>\<open>lastFlush\<close>) takes time and changes no value: it is left out.
\<close>

datatype io = SerialOpen | ConWrite "byte list" | ConClose

type_synonym wres = "nat \<times> bool"

datatype rres = RErr | RData "byte list"

definition filled :: "nat \<Rightarrow> byte list \<Rightarrow> byte list" where
  "filled n d = take n d @ replicate (n - length d) 0"

text \<open>
  A buffered Go channel is a queue with a capacity.  A send on a full channel and a
  receive on an empty one block: \<open>None\<close>.
\<close>

definition send :: "nat \<Rightarrow> 'a list \<Rightarrow> 'a \<Rightarrow> 'a list option" where
  "send cap q x = (if length q < cap then Some (q @ [x]) else None)"

definition recv :: "'a list \<Rightarrow> ('a \<times> 'a list) option" where
  "recv q = (case q of [] \<Rightarrow> None | x # q' \<Rightarrow> Some (x, q'))"

text \<open>
  How a call ends: it returns, it is left waiting on a channel or on the transport
  (\<open>Blocked\<close>), or it panics (an index out of range, a nil connection).
\<close>

datatype 'r run = Returned 'r | Blocked | Panicked

text \<open>
  The callback of \<^verbatim>\<open>Listen\<close> is \<^verbatim>\<open>func(btn int, released bool) bool\<close>; the model
  takes its decision as a function of its arguments and records every invocation.
\<close>

type_synonym callback = "int \<Rightarrow> bool \<Rightarrow> bool"

type_synonym calls = "(int \<times> bool) list"

definition emit :: "int \<times> bool \<Rightarrow> 'r \<times> calls \<times> 's \<Rightarrow> 'r \<times> calls \<times> 's" where
  "emit ev r = (case r of (st, evs, a) \<Rightarrow> (st, ev # evs, a))"

section \<open>The Asustor session of asustor.go (struct asustorLCD)\<close>

text \<open>
  The mutable fields of the struct: \<open>con\<close> is \<^verbatim>\<open>a.con != nil\<close>, the two channels are
  their queued frames (capacity 20).  The struct of the later variant adds
  \<^verbatim>\<open>keepListening\<close> and \<^verbatim>\<open>retry\<close>, and its channels hold 100 frames.
\<close>

record asustorLCD =
  con :: bool
  "open" :: bool
  readC :: "byte list list"
  btnC :: "byte list list"
  iolog :: "io list"

record asustor = asustorLCD +
  keepListening :: bool
  retry :: byte

text \<open>\<^verbatim>\<open>_ = a.con.Close()\<close>\<close>

definition conClose :: "'a asustorLCD_scheme \<Rightarrow> 'a asustorLCD_scheme" where
  "conClose a = a\<lparr>iolog := iolog a @ [ConClose]\<rparr>"

text \<open>
  \<^verbatim>\<open>flush\<close>, the same in every variant: frame the data, write it, and turn a transport
  error or a short write into an error.  Its callers have a connection.
\<close>

definition flush ::
  "byte list \<Rightarrow> wres \<Rightarrow> 'a asustorLCD_scheme \<Rightarrow> error option \<times> 'a asustorLCD_scheme" where
  "flush data w a =
     (let data1 = makemsg data;
          a1 = a\<lparr>iolog := iolog a @ [ConWrite data1]\<rparr>
      in if snd w then (Some ErrTransport, a1)
         else if fst w \<noteq> length data1 then (Some ErrWrittenSize, a1)
         else (None, a1))"

text \<open>
  \<^verbatim>\<open>forceClose\<close> and \<^verbatim>\<open>Close\<close> of asustor.go.  \<open>cerr\<close> is what \<^verbatim>\<open>con.Close()\<close>
  returns.  Nothing is sent on the channels.
\<close>

definition asustorLCD_forceClose ::
  "error option \<Rightarrow> asustorLCD \<Rightarrow> error option \<times> asustorLCD" where
  "asustorLCD_forceClose cerr a =
     (let a1 = a\<lparr>open := False\<rparr>
      in if \<not> con a1 then (None, a1) else (cerr, conClose a1))"

definition asustorLCD_Close ::
  "error option \<Rightarrow> asustorLCD \<Rightarrow> error option \<times> asustorLCD" where
  "asustorLCD_Close cerr a =
     (if \<not> open a then (None, a) else asustorLCD_forceClose cerr a)"

text \<open>
  \<^verbatim>\<open>readWithTimeout\<close>: either the read returns without error before the 300 ms timer
  (\<open>ReadOk d\<close>), or the timer finds no response and calls \<^verbatim>\<open>forceClose\<close>; the call then
  returns a non-nil error (the timer's or the read's).  The result is \<open>(i, err \<noteq> nil, res)\<close>.
\<close>

datatype tread = ReadOk "byte list" | ReadFailed

definition asustorLCD_readWithTimeout ::
  "nat \<Rightarrow> tread \<Rightarrow> asustorLCD \<Rightarrow> (nat \<times> bool \<times> byte list) \<times> asustorLCD" where
  "asustorLCD_readWithTimeout n r a =
     (case r of
        ReadOk d \<Rightarrow> ((min n (length d), False, filled n d), a)
      | ReadFailed \<Rightarrow> ((0, True, filled n []), snd (asustorLCD_forceClose None a)))"

definition asustorLCD_isReady :: "tread \<Rightarrow> asustorLCD \<Rightarrow> bool \<times> asustorLCD" where
  "asustorLCD_isReady r a =
     (case asustorLCD_readWithTimeout 5 r a of
        ((i, er, res), a1) \<Rightarrow>
          if er \<or> i \<noteq> length res then (False, a1)
          else if prefix cmdRdy res then (True, a1)
          else (False, a1))"


text \<open>
  \<^verbatim>\<open>isMsgSent\<close> and \<^verbatim>\<open>Write\<close> of asustor.go.  The receive has no timeout.
  \<open>asustorLCD_isMsgSent_recv\<close> is the function from the receive on, where a call that
  was left waiting goes on.  \<open>arrived\<close> are the frames the reader goroutine puts on the ack
  channel after the write.
\<close>

definition asustorLCD_isMsgSent_recv :: "asustorLCD \<Rightarrow> bool run \<times> asustorLCD" where
  "asustorLCD_isMsgSent_recv a =
     (case recv (readC a) of
        None \<Rightarrow> (Blocked, a)
      | Some (res, q) \<Rightarrow> (Returned (res = cmdMsgSentCheck), a\<lparr>readC := q\<rparr>))"

definition asustorLCD_isMsgSent :: "asustorLCD \<Rightarrow> bool run \<times> asustorLCD" where
  "asustorLCD_isMsgSent a =
     (if open a then asustorLCD_isMsgSent_recv a else (Returned False, a))"

definition asustorLCD_Write ::
  "wres \<Rightarrow> byte list list \<Rightarrow> Line \<Rightarrow> string \<Rightarrow> asustorLCD
     \<Rightarrow> error option run \<times> asustorLCD" where
  "asustorLCD_Write w arrived line text a =
     (if \<not> open a then (Returned (Some ErrClosed), a)
      else
        case flush (asustorLCD_strToBytes line text) w a of
          (Some err, a1) \<Rightarrow> (Returned (Some err), a1)
        | (None, a1) \<Rightarrow>
            (case asustorLCD_isMsgSent (a1\<lparr>readC := readC a1 @ arrived\<rparr>) of
               (Returned sent, a2) \<Rightarrow>
                 if \<not> sent then (Returned (Some ErrDisplayNotWorking), a2)
                 else (Returned None, a2)
             | (Blocked, a2) \<Rightarrow> (Blocked, a2)
             | (Panicked, a2) \<Rightarrow> (Panicked, a2)))"

text \<open>
  \<^verbatim>\<open>Listen\<close> of asustor.go: \<^verbatim>\<open>for a.open { res := <-a.btnC; if !l(int(res[3]), true)
  { return } }\<close>.  \<open>asustorLCD_Listen_recv\<close> is the loop from the receive on.
\<close>

function asustorLCD_Listen_recv ::
  "callback \<Rightarrow> asustorLCD \<Rightarrow> unit run \<times> calls \<times> asustorLCD" where
  "asustorLCD_Listen_recv l a =
     (case recv (btnC a) of
        None \<Rightarrow> (Blocked, [], a)
      | Some (res, q) \<Rightarrow>
          let a1 = a\<lparr>btnC := q\<rparr>
          in if length res \<le> 3 then (Panicked, [], a1)
             else if \<not> l (uint (res ! 3)) True
               then (Returned (), [(uint (res ! 3), True)], a1)
             else if open a1
               then emit (uint (res ! 3), True) (asustorLCD_Listen_recv l a1)
             else (Returned (), [(uint (res ! 3), True)], a1))"
  by pat_completeness auto
termination
  by (relation "measure (\<lambda>(l, a). length (btnC a))")
     (auto simp: recv_def split: list.splits)

definition asustorLCD_Listen ::
  "callback \<Rightarrow> asustorLCD \<Rightarrow> unit run \<times> calls \<times> asustorLCD" where
  "asustorLCD_Listen l a =
     (if \<not> open a then (Returned (), [], a)
      else if open a then asustorLCD_Listen_recv l a
      else (Returned (), [], a))"

text \<open>
  \<^verbatim>\<open>read\<close> of asustor.go, over the answers of successive \<^verbatim>\<open>con.Read\<close> calls on a
  fresh 5-byte buffer; when they are used up the reader waits in \<^verbatim>\<open>Read\<close>.
\<close>

fun asustorLCD_read :: "rres list \<Rightarrow> asustorLCD \<Rightarrow> unit run \<times> asustorLCD" where
  "asustorLCD_read [] a = (if open a then (Blocked, a) else (Returned (), a))"
| "asustorLCD_read (r # rs) a =
     (if \<not> open a then (Returned (), a)
      else
        case r of
          RErr \<Rightarrow> (Returned (), a)
        | RData d \<Rightarrow>
            let res = filled 5 d
            in if prefix cmdBtn res
               then (case send 20 (btnC a) res of
                       None \<Rightarrow> (Blocked, a)
                     | Some q \<Rightarrow> asustorLCD_read rs (a\<lparr>btnC := q\<rparr>))
               else (case send 20 (readC a) res of
                       None \<Rightarrow> (Blocked, a)
                     | Some q \<Rightarrow> asustorLCD_read rs (a\<lparr>readC := q\<rparr>)))"

section \<open>The Asustor session with the lock (struct asustor)\<close>

text \<open>
  \<^verbatim>\<open>forceClose\<close>: \<^verbatim>\<open>a.open = false; a.readC <- []byte{}; a.btnC <- []byte{};
  return a.con.Close()\<close>, and \<^verbatim>\<open>Close\<close>.  The lock is held by \<^verbatim>\<open>Open\<close>,
  \<^verbatim>\<open>Write\<close>, \<^verbatim>\<open>Enable\<close> and \<^verbatim>\<open>Close\<close> for the whole call; the model runs one
  call at a time.
\<close>

definition asustor_forceClose :: "error option \<Rightarrow> asustor \<Rightarrow> error option run \<times> asustor" where
  "asustor_forceClose cerr a =
     (let a1 = a\<lparr>open := False\<rparr>
      in case send 100 (readC a1) [] of
           None \<Rightarrow> (Blocked, a1)
         | Some q1 \<Rightarrow>
             (let a2 = a1\<lparr>readC := q1\<rparr>
              in (case send 100 (btnC a2) [] of
                    None \<Rightarrow> (Blocked, a2)
                  | Some q2 \<Rightarrow>
                      (let a3 = a2\<lparr>btnC := q2\<rparr>
                       in if \<not> con a3 then (Panicked, a3)
                          else (Returned cerr, conClose a3)))))"

definition asustor_Close :: "error option \<Rightarrow> asustor \<Rightarrow> error option run \<times> asustor" where
  "asustor_Close cerr a =
     (if \<not> open a then (Returned None, a) else asustor_forceClose cerr a)"

text \<open>
  \<^verbatim>\<open>responseEqual\<close>: wait up to 40 ms for a frame on the ack channel.  \<open>arrived\<close> are
  the frames the reader goroutine puts there until the wait ends; with none queued and none
  arriving the wait times out.
\<close>

definition asustor_responseEqual ::
  "byte list list \<Rightarrow> byte list list \<Rightarrow> asustor \<Rightarrow> bool \<times> asustor" where
  "asustor_responseEqual checks arrived a =
     (case recv (readC a @ arrived) of
        None \<Rightarrow> (False, a)
      | Some (res, q) \<Rightarrow>
          let a1 = a\<lparr>readC := q\<rparr>
          in if \<not> open a1 then (False, a1)
             else if list_ex (\<lambda>check. res = check) checks then (True, a1)
             else (False, a1))"

text \<open>
  \<^verbatim>\<open>write\<close> and \<^verbatim>\<open>Write\<close>.  \<open>dev k\<close> is what the device does at the \<open>k\<close>-th
  attempt from now: the answer to the write and the frames that arrive on the ack channel
  during the wait.  The recursion of the source ends because \<^verbatim>\<open>retry\<close> grows with every
  call and stops it above 10.
\<close>

lemma retry_measure_decreases:
  fixes r :: byte
  assumes "\<not> 10 < r"
  shows "11 - unat (r + 1) < 11 - unat r"
proof -
  from assms have le: "unat r \<le> 10"
    by (simp add: word_less_nat_alt not_less)
  then have "unat (r + 1) = unat r + 1"
    by (simp add: unat_word_ariths)
  with le show ?thesis
    by simp
qed

function asustor_write ::
  "(nat \<Rightarrow> wres \<times> byte list list) \<Rightarrow> nat \<Rightarrow> byte list \<Rightarrow> asustor
     \<Rightarrow> error option \<times> asustor" where
  "asustor_write dev k msg a =
     (if \<not> open a then (Some ErrClosed, a)
      else
        case flush msg (fst (dev k)) a of
          (Some err, a1) \<Rightarrow> (Some err, a1)
        | (None, a1) \<Rightarrow>
            (case asustor_responseEqual [replyMsgSentCheck] (snd (dev k)) a1 of
               (False, a2) \<Rightarrow>
                 if retry a2 > 10 then (Some ErrDisplayNotWorking, a2)
                 else asustor_write dev (k + 1) msg (a2\<lparr>retry := retry a2 + 1\<rparr>)
             | (True, a2) \<Rightarrow> (None, a2\<lparr>retry := 0\<rparr>)))"
  by pat_completeness auto
termination
  by (relation "measure (\<lambda>(dev, k, msg, a). 11 - unat (retry a))")
     (auto simp: flush_def asustor_responseEqual_def Let_def retry_measure_decreases
           split: if_splits option.splits prod.splits)

definition asustor_Write ::
  "(nat \<Rightarrow> wres \<times> byte list list) \<Rightarrow> Line \<Rightarrow> string \<Rightarrow> asustor \<Rightarrow> error option \<times> asustor" where
  "asustor_Write dev line text a = asustor_write dev 0 (strToBytes line text) a"

text \<open>
  \<^verbatim>\<open>Listen\<close>: the loop from the receive on (\<open>asustor_Listen_recv\<close>), and the call.
\<close>

function asustor_Listen_recv :: "callback \<Rightarrow> asustor \<Rightarrow> unit run \<times> calls \<times> asustor" where
  "asustor_Listen_recv l a =
     (case recv (btnC a) of
        None \<Rightarrow> (Blocked, [], a)
      | Some (res, q) \<Rightarrow>
          let a1 = a\<lparr>btnC := q\<rparr>
          in if \<not> open a1 then (Returned (), [], a1)
             else if keepListening a1 then
               (if length res \<le> 3 then (Panicked, [], a1)
                else if \<not> l (uint (res ! 3)) True
                  then (Returned (), [(uint (res ! 3), True)], a1\<lparr>keepListening := False\<rparr>)
                else if open a1
                  then emit (uint (res ! 3), True) (asustor_Listen_recv l a1)
                else (Returned (), [(uint (res ! 3), True)], a1))
             else if open a1 then asustor_Listen_recv l a1
             else (Returned (), [], a1))"
  by pat_completeness auto
termination
  by (relation "measure (\<lambda>(l, a). length (btnC a))")
     (auto simp: recv_def split: list.splits)






section \<open>The QNAP session (struct qnap)\<close>

text \<open>
  The constants of \<^verbatim>\<open>NewQnapLCD\<close>.  Each \<^verbatim>\<open>append(cmdBtn, x)\<close> exceeds the capacity
  of \<^verbatim>\<open>cmdBtn\<close> and so builds a slice of its own.
\<close>

definition qnap_cmdBtn :: "byte list" where
  "qnap_cmdBtn = [83, 5, 0]"

definition released :: "byte list" where
  "released = qnap_cmdBtn @ [0]"

definition upPressed :: "byte list" where
  "upPressed = qnap_cmdBtn @ [1]"

definition downPressed :: "byte list" where
  "downPressed = qnap_cmdBtn @ [2]"

definition bothPressed :: "byte list" where
  "bothPressed = qnap_cmdBtn @ [3]"

definition cmdWrite :: "byte list" where
  "cmdWrite = [77, 94, 1]"

record qnap =
  qopen :: bool
  qlog :: "io list"

text \<open>
  \<^verbatim>\<open>remove\<close> swaps the element at \<open>i\<close> with the last one and drops the last.
  \<^verbatim>\<open>ensureOrder\<close> returns a frame that starts with the button prefix as it is; otherwise
  it looks each prefix byte up in what is left of the frame (\<open>find_eq\<close>: the inner loop,
  stopping at the first equal byte) and puts the first byte left over in fourth place.
\<close>

definition remove :: "byte list \<Rightarrow> nat \<Rightarrow> byte list" where
  "remove s i =
     (let x = s ! i; y = s ! (length s - 1)
      in take (length s - 1) ((s[length s - 1 := x])[i := y]))"

fun find_eq :: "byte \<Rightarrow> byte list \<Rightarrow> nat \<Rightarrow> nat option" where
  "find_eq b [] c = None"
| "find_eq b (r # rs) c = (if b = r then Some c else find_eq b rs (c + 1))"

fun ensureOrder_loop ::
  "byte list \<Rightarrow> nat \<Rightarrow> byte list \<Rightarrow> byte list \<Rightarrow> byte list \<times> byte list" where
  "ensureOrder_loop [] i ordered res = (ordered, res)"
| "ensureOrder_loop (b # bs) i ordered res =
     (case find_eq b res 0 of
        None \<Rightarrow> ensureOrder_loop bs (i + 1) ordered res
      | Some c \<Rightarrow> ensureOrder_loop bs (i + 1) (ordered[i := b]) (remove res c))"

definition ensureOrder :: "byte list \<Rightarrow> byte list" where
  "ensureOrder res =
     (if prefix qnap_cmdBtn res then res
      else
        case ensureOrder_loop qnap_cmdBtn 0 (replicate 4 0) res of
          (ordered, res1) \<Rightarrow>
            if length res1 > 0 then ordered[3 := res1 ! 0] else ordered)"

text \<open>
  \<^verbatim>\<open>Listen\<close>, over the answers of successive \<^verbatim>\<open>con.Read\<close> calls on a fresh 4-byte
  buffer; \<open>lastBtn\<close> is the local variable of the loop.
\<close>

fun qnap_Listen_loop :: "callback \<Rightarrow> rres list \<Rightarrow> int \<Rightarrow> unit run \<times> calls" where
  "qnap_Listen_loop l [] lastBtn = (Blocked, [])"
| "qnap_Listen_loop l (r # rs) lastBtn =
     (case r of
        RErr \<Rightarrow> (Returned (), [])
      | RData d \<Rightarrow>
          if min 4 (length d) \<noteq> 4 then qnap_Listen_loop l rs lastBtn
          else
            let res = ensureOrder (filled 4 d)
            in if res = released then
                 (if \<not> l lastBtn True then (Returned (), [(lastBtn, True)])
                  else (case qnap_Listen_loop l rs 0 of
                          (st, evs) \<Rightarrow> (st, (lastBtn, True) # evs)))
               else if res = upPressed then
                 (if lastBtn = 3 then qnap_Listen_loop l rs lastBtn
                  else if \<not> l 1 False then (Returned (), [(1, False)])
                  else (case qnap_Listen_loop l rs 1 of
                          (st, evs) \<Rightarrow> (st, (1, False) # evs)))
               else if res = downPressed then
                 (if lastBtn = 3 then qnap_Listen_loop l rs lastBtn
                  else if \<not> l 2 False then (Returned (), [(2, False)])
                  else (case qnap_Listen_loop l rs 2 of
                          (st, evs) \<Rightarrow> (st, (2, False) # evs)))
               else if res = bothPressed then
                 (if \<not> l 3 False then (Returned (), [(3, False)])
                  else (case qnap_Listen_loop l rs 3 of
                          (st, evs) \<Rightarrow> (st, (3, False) # evs)))
               else qnap_Listen_loop l rs lastBtn)"

definition qnap_Listen :: "callback \<Rightarrow> rres list \<Rightarrow> qnap \<Rightarrow> unit run \<times> calls" where
  "qnap_Listen l rs q =
     (if \<not> qopen q then (Returned (), []) else qnap_Listen_loop l rs 0)"

text \<open>
  \<^verbatim>\<open>Write\<close> builds its header with \<^verbatim>\<open>h(fmt.Sprintf("4d0c0%d10", line))\<close>.  Of Go's
  library: \<^verbatim>\<open>%d\<close> prints the integer in decimal (\<open>itoa\<close>), and
  \<^verbatim>\<open>hex.DecodeString\<close> returns, with its error, the bytes of the pairs of hexadecimal
  digits before the first character that is none or the odd one at the end; \<^verbatim>\<open>h\<close>
  drops the error.
\<close>

function dec_nat :: "nat \<Rightarrow> string" where
  "dec_nat n =
     (if n < 10 then [char_of (48 + n)]
      else dec_nat (n div 10) @ [char_of (48 + n mod 10)])"
  by pat_completeness auto
termination
  by (relation "measure (\<lambda>n. n)") auto

definition itoa :: "int \<Rightarrow> string" where
  "itoa i = (if i < 0 then CHR ''-'' # dec_nat (nat (- i)) else dec_nat (nat i))"

definition fromHexChar :: "char \<Rightarrow> byte option" where
  "fromHexChar c =
     (let n = (of_char c :: nat)
      in if 48 \<le> n \<and> n \<le> 57 then Some (of_nat (n - 48))
         else if 97 \<le> n \<and> n \<le> 102 then Some (of_nat (n - 97 + 10))
         else if 65 \<le> n \<and> n \<le> 70 then Some (of_nat (n - 65 + 10))
         else None)"

fun h :: "string \<Rightarrow> byte list" where
  "h (p # q # rest) =
     (case fromHexChar p of
        None \<Rightarrow> []
      | Some a \<Rightarrow>
          (case fromHexChar q of
             None \<Rightarrow> []
           | Some b \<Rightarrow> (a * 16 + b) # h rest))"
| "h rest = []"

text \<open>
  The text is cut to 16 bytes or padded by the loop \<^verbatim>\<open>for len(txt) < 16\<close>; the
  frame is written once and nothing is read back.
\<close>

function qnap_pad :: "string \<Rightarrow> string" where
  "qnap_pad txt =
     (if length txt < 16 then qnap_pad (txt @ replicate (16 - length txt) (CHR '' ''))
      else txt)"
  by pat_completeness auto
termination
  by (relation "measure (\<lambda>txt. 16 - length txt)") auto

definition qnap_frame :: "Line \<Rightarrow> string \<Rightarrow> byte list" where
  "qnap_frame line txt =
     (let txt1 = (if length txt > 16 then take 16 txt else qnap_pad txt)
      in cmdWrite @ h (''4d0c0'' @ itoa line @ ''10'') @ bytes_of txt1)"

definition qnap_Write :: "wres \<Rightarrow> Line \<Rightarrow> string \<Rightarrow> qnap \<Rightarrow> error option \<times> qnap" where
  "qnap_Write w line txt q =
     (if \<not> qopen q then (Some ErrClosed, q)
      else
        let cnt = qnap_frame line txt;
            q1 = q\<lparr>qlog := qlog q @ [ConWrite cnt]\<rparr>
        in if fst w \<noteq> length cnt then (Some ErrMsgSizeMismatch, q1)
           else if snd w then (Some ErrTransport, q1)
           else (None, q1))"

text \<open>Callbacks and sessions used as examples.\<close>

definition keep_going :: callback where
  "keep_going btn rel = True"

definition fresh_asustorLCD :: asustorLCD where
  "fresh_asustorLCD = \<lparr>con = True, open = True, readC = [], btnC = [], iolog = []\<rparr>"

definition fresh_asustor :: asustor where
  "fresh_asustor =
     \<lparr>con = True, open = True, readC = [], btnC = [], iolog = [],
      keepListening = False, retry = 0\<rparr>"

definition silent :: "nat \<Rightarrow> wres \<times> byte list list" where
  "silent k = ((22, False), [])"

definition acking :: "nat \<Rightarrow> wres \<times> byte list list" where
  "acking k = ((22, False), [replyMsgSentCheck])"

definition exhausted :: asustor where
  "exhausted = snd (asustor_Write silent 0 ''Hi'' fresh_asustor)"

definition revived :: asustor where
  "revived = snd (asustor_Write acking 0 ''Hi'' exhausted)"




text \<open>The frames handed to \<^verbatim>\<open>con.Write\<close>, in order, read off the trace.\<close>

definition sent_frames :: "io list \<Rightarrow> byte list list" where
  "sent_frames log = concat (map (\<lambda>e. case e of ConWrite d \<Rightarrow> [d] | _ \<Rightarrow> []) log)"






definition closed_asustorLCD :: asustorLCD where
  "closed_asustorLCD = \<lparr>con = False, open = False, readC = [], btnC = [], iolog = []\<rparr>"

definition fresh_qnap :: qnap where
  "fresh_qnap = \<lparr>qopen = True, qlog = []\<rparr>"

section \<open>Checksum and framing\<close>

lemma checksum_foldl_shift:
  "foldl (\<lambda>s bb. s + bb) (a :: byte) b = a + foldl (\<lambda>s bb. s + bb) 0 b"
proof (induction b arbitrary: a)
  case Nil
  show ?case by simp
next
  case (Cons x xs)
  have "foldl (\<lambda>s bb. s + bb) (a + x) xs = (a + x) + foldl (\<lambda>s bb. s + bb) 0 xs"
    by (rule Cons.IH)
  moreover have "foldl (\<lambda>s bb. s + bb) (0 + x) xs = x + foldl (\<lambda>s bb. s + bb) 0 xs"
    using Cons.IH [of x] by simp
  ultimately show ?case by (simp add: add.assoc)
qed

lemma checksum_Nil: "checksum [] = 0"
  by (simp add: checksum_def)

lemma checksum_Cons: "checksum (x # xs) = x + checksum xs"
  using checksum_foldl_shift [of x xs] by (simp add: checksum_def)

lemma unat_checksum: "unat (checksum b) = sum_list (map unat b) mod 256"
proof (induction b)
  case Nil
  show ?case by (simp add: checksum_Nil)
next
  case (Cons x xs)
  have "unat (x + checksum xs) = (unat x + unat (checksum xs)) mod 256"
    by (simp add: unat_word_ariths)
  also have "\<dots> = (unat x + sum_list (map unat xs) mod 256) mod 256"
    by (simp add: Cons.IH)
  also have "\<dots> = (unat x + sum_list (map unat xs)) mod 256"
    by (rule mod_add_right_eq)
  finally show ?case by (simp add: checksum_Cons)
qed

text \<open>
  C2.  For every command byte sequence \<open>S\<close> the outbound frame \<open>makemsg S\<close> is \<open>S\<close>
  followed by exactly one byte, that byte is the sum of the bytes of \<open>S\<close> modulo 256,
  and dropping the last byte of the frame gives \<open>S\<close> back.
\<close>

theorem makemsg_checksum_roundtrip:
  "makemsg S = S @ [checksum S]
   \<and> length (makemsg S) = length S + 1
   \<and> unat (last (makemsg S)) = sum_list (map unat S) mod 256
   \<and> butlast (makemsg S) = S"
  by (simp add: makemsg_def unat_checksum)

section \<open>Text payload\<close>

lemma length_prepareTxt: "length (prepareTxt t) = 16"
  by (simp add: prepareTxt_def Let_def)

lemma prepareTxt_16: "length t = 16 \<Longrightarrow> prepareTxt t = t"
  by (simp add: prepareTxt_def Let_def)

lemma asustorLCD_strToBytes_eq: "asustorLCD_strToBytes line t = strToBytes line t"
  by (simp add: asustorLCD_strToBytes_def strToBytes_def createMsg_def prepareTxt_def Let_def)

text \<open>
  C3.  Whatever the length of the input string, the text put into a write frame is 16
  bytes: the first 16 bytes of a longer string, a shorter string followed by spaces; a
  string of 16 bytes is left as it is, so normalising twice is normalising once.  The
  payload is the 16 bytes after the 5-byte header of the frame, in both variants of
  \<^verbatim>\<open>strToBytes\<close>.
\<close>

theorem text_payload_normalised:
  "length (prepareTxt t) = 16
   \<and> (16 < length t \<longrightarrow> prepareTxt t = take 16 t)
   \<and> (length t < 16 \<longrightarrow> prepareTxt t = t @ replicate (16 - length t) (CHR '' ''))
   \<and> (length t = 16 \<longrightarrow> prepareTxt t = t)
   \<and> prepareTxt (prepareTxt t) = prepareTxt t
   \<and> take 16 (drop 5 (makemsg (strToBytes line t))) = bytes_of (prepareTxt t)
   \<and> length (makemsg (strToBytes line t)) = 22
   \<and> take 16 (drop 5 (makemsg (asustorLCD_strToBytes line t))) = bytes_of (prepareTxt t)"
proof -
  have len: "length (prepareTxt t) = 16"
    by (rule length_prepareTxt)
  have cut: "16 < length t \<longrightarrow> prepareTxt t = take 16 t"
    by (simp add: prepareTxt_def Let_def)
  have pad: "length t < 16 \<longrightarrow> prepareTxt t = t @ replicate (16 - length t) (CHR '' '')"
    by (simp add: prepareTxt_def Let_def)
  have same: "length t = 16 \<longrightarrow> prepareTxt t = t"
    by (simp add: prepareTxt_16)
  have idem: "prepareTxt (prepareTxt t) = prepareTxt t"
    by (rule prepareTxt_16) (rule len)
  have lb: "length (bytes_of (prepareTxt t)) = 16"
    by (simp add: bytes_of_def len)
  have payload: "take 16 (drop 5 (makemsg (strToBytes line t))) = bytes_of (prepareTxt t)"
    by (simp add: makemsg_def strToBytes_def createMsg_def Let_def lb)
  have total: "length (makemsg (strToBytes line t)) = 22"
    by (simp add: makemsg_def strToBytes_def createMsg_def Let_def lb)
  have old: "take 16 (drop 5 (makemsg (asustorLCD_strToBytes line t))) = bytes_of (prepareTxt t)"
    using payload by (simp add: asustorLCD_strToBytes_eq)
  from len cut pad same idem payload total old show ?thesis
    by blast
qed

theorem text_payload_normalised_witness:
  "length ''Hello'' < 16 \<and> prepareTxt ''Hello'' = ''Hello           ''
   \<and> 16 < length ''Hello second line'' \<and> prepareTxt ''Hello second line'' = ''Hello second lin''
   \<and> length ''0123456789abcdef'' = 16 \<and> prepareTxt ''0123456789abcdef'' = ''0123456789abcdef''"
  using text_payload_normalised [of "''Hello''" 0]
    text_payload_normalised [of "''Hello second line''" 0]
    text_payload_normalised [of "''0123456789abcdef''" 0]
  by (simp add: eval_nat_numeral)

section \<open>The QNAP button interpreter\<close>

text \<open>
  C4.  On an open QNAP session whose callback asks to go on, the frames up-pressed,
  both-pressed, down-pressed, released make \<^verbatim>\<open>Listen\<close> call the callback with
  press(1), press(3) and release(3), in this order and nothing else: the down-pressed frame
  after both-pressed is dropped and the release names button 3, not 2.
\<close>

theorem qnap_debounce:
  assumes "qopen q" and "l 1 False" and "l 3 False"
  shows "snd (qnap_Listen l [RData upPressed, RData bothPressed, RData downPressed, RData released] q)
         = [(1, False), (3, False), (3, True)]"
  using assms
  by (simp add: qnap_Listen_def ensureOrder_def filled_def released_def upPressed_def
      downPressed_def bothPressed_def qnap_cmdBtn_def)

theorem qnap_debounce_witness:
  "qopen \<lparr>qopen = True, qlog = []\<rparr> \<and> keep_going 1 False \<and> keep_going 3 False
   \<and> snd (qnap_Listen keep_going
        [RData upPressed, RData bothPressed, RData downPressed, RData released]
        \<lparr>qopen = True, qlog = []\<rparr>)
      = [(1, False), (3, False), (3, True)]"
proof -
  have a: "qopen \<lparr>qopen = True, qlog = []\<rparr>"
    by simp
  have b: "keep_going 1 False" and c: "keep_going 3 False"
    by (simp_all add: keep_going_def)
  from a b c qnap_debounce [of "\<lparr>qopen = True, qlog = []\<rparr>" keep_going] show ?thesis
    by simp
qed

section \<open>The write pipeline\<close>

declare asustor_write.simps [simp del]

lemma flush_ok:
  "flush msg (length (makemsg msg), False) a
   = (None, a\<lparr>iolog := iolog a @ [ConWrite (makemsg msg)]\<rparr>)"
  by (simp add: flush_def Let_def)

lemma flush_cases:
  "\<exists>e. flush msg w a = (e, a\<lparr>iolog := iolog a @ [ConWrite (makemsg msg)]\<rparr>)
       \<and> e \<noteq> Some ErrDisplayNotWorking \<and> e \<noteq> Some ErrClosed"
  by (simp add: flush_def Let_def)

lemma responseEqual_cases:
  "\<exists>b q. asustor_responseEqual checks arrived a = (b, a\<lparr>readC := q\<rparr>)
      \<and> q = tl (readC a @ arrived)
      \<and> set q \<subseteq> set (readC a @ arrived)
      \<and> (b \<longrightarrow> open a \<and> (\<exists>res. readC a @ arrived = res # q \<and> res \<in> set checks))"
  by (cases "readC a @ arrived")
     (auto simp: asustor_responseEqual_def recv_def Let_def list_ex_iff)

lemma responseEqual_fail:
  assumes "replyMsgSentCheck \<notin> set (readC a)" and "replyMsgSentCheck \<notin> set arrived"
  shows "\<exists>q. asustor_responseEqual [replyMsgSentCheck] arrived a = (False, a\<lparr>readC := q\<rparr>)
      \<and> replyMsgSentCheck \<notin> set q \<and> q = tl (readC a @ arrived)"
proof -
  obtain b q where r: "asustor_responseEqual [replyMsgSentCheck] arrived a = (b, a\<lparr>readC := q\<rparr>)"
    and tl: "q = tl (readC a @ arrived)"
    and sub: "set q \<subseteq> set (readC a @ arrived)"
    and ok: "b \<longrightarrow> open a \<and> (\<exists>res. readC a @ arrived = res # q \<and> res \<in> set [replyMsgSentCheck])"
    using responseEqual_cases [of "[replyMsgSentCheck]" arrived a] by blast
  have "\<not> b"
  proof
    assume b
    with ok obtain res where "readC a @ arrived = res # q" and "res = replyMsgSentCheck"
      by auto
    then have "replyMsgSentCheck \<in> set (readC a @ arrived)"
      by simp
    with assms show False
      by simp
  qed
  moreover from sub assms have "replyMsgSentCheck \<notin> set q"
    by auto
  ultimately show ?thesis
    using r tl by auto
qed

lemma responseEqual_ack:
  assumes "open a" and "readC a @ arrived = replyMsgSentCheck # q"
  shows "asustor_responseEqual [replyMsgSentCheck] arrived a = (True, a\<lparr>readC := q\<rparr>)"
  using assms by (simp add: asustor_responseEqual_def recv_def Let_def)

text \<open>One unacknowledged attempt.\<close>

lemma write_step_fail:
  assumes "open a"
    and "fst (dev k) = (length (makemsg msg), False)"
    and "replyMsgSentCheck \<notin> set (readC a)" and "replyMsgSentCheck \<notin> set (snd (dev k))"
  shows "\<exists>q. replyMsgSentCheck \<notin> set q \<and> q = tl (readC a @ snd (dev k)) \<and>
      asustor_write dev k msg a =
        (if 10 < retry a
         then (Some ErrDisplayNotWorking, a\<lparr>iolog := iolog a @ [ConWrite (makemsg msg)], readC := q\<rparr>)
         else asustor_write dev (k + 1) msg
                (a\<lparr>iolog := iolog a @ [ConWrite (makemsg msg)], readC := q, retry := retry a + 1\<rparr>))"
proof -
  let ?a1 = "a\<lparr>iolog := iolog a @ [ConWrite (makemsg msg)]\<rparr>"
  have f: "flush msg (fst (dev k)) a = (None, ?a1)"
    using assms(2) by (simp add: flush_ok)
  from assms(3,4) obtain q where
    r: "asustor_responseEqual [replyMsgSentCheck] (snd (dev k)) ?a1 = (False, ?a1\<lparr>readC := q\<rparr>)"
    and q: "replyMsgSentCheck \<notin> set q" "q = tl (readC a @ snd (dev k))"
    using responseEqual_fail [of ?a1 "snd (dev k)"] by auto
  have "asustor_write dev k msg a =
        (if 10 < retry a
         then (Some ErrDisplayNotWorking, a\<lparr>iolog := iolog a @ [ConWrite (makemsg msg)], readC := q\<rparr>)
         else asustor_write dev (k + 1) msg
                (a\<lparr>iolog := iolog a @ [ConWrite (makemsg msg)], readC := q, retry := retry a + 1\<rparr>))"
    using assms(1) by (subst asustor_write.simps) (simp add: f r)
  with q show ?thesis
    by blast
qed

lemma write_exhaust:
  assumes "open a" and "unat (retry a) \<le> 11"
    and "\<forall>k. fst (dev k) = (length (makemsg msg), False)"
    and "\<forall>k. replyMsgSentCheck \<notin> set (snd (dev k))"
    and "replyMsgSentCheck \<notin> set (readC a)"
  shows "\<exists>q. asustor_write dev k msg a =
      (Some ErrDisplayNotWorking,
       a\<lparr>iolog := iolog a @ replicate (12 - unat (retry a)) (ConWrite (makemsg msg)),
         readC := q, retry := 11\<rparr>) \<and> replyMsgSentCheck \<notin> set q
      \<and> (readC a = [] \<and> (\<forall>k. snd (dev k) = []) \<longrightarrow> q = [])"
  using assms(1,2,5)
proof (induction "11 - unat (retry a)" arbitrary: a k)
  case 0
  then have r: "retry a = 11"
    by (simp add: word_unat_eq_iff)
  then have gt: "10 < retry a"
    by simp
  from write_step_fail [of a dev k msg] 0 assms(3,4) gt
  obtain q where "replyMsgSentCheck \<notin> set q" and "q = tl (readC a @ snd (dev k))"
    and "asustor_write dev k msg a =
       (Some ErrDisplayNotWorking, a\<lparr>iolog := iolog a @ [ConWrite (makemsg msg)], readC := q\<rparr>)"
    by auto
  moreover have "a\<lparr>iolog := iolog a @ [ConWrite (makemsg msg)], readC := q\<rparr>
      = a\<lparr>iolog := iolog a @ replicate (12 - unat (retry a)) (ConWrite (makemsg msg)),
           readC := q, retry := 11\<rparr>"
    using r by simp
  ultimately show ?case
    by auto
next
  case (Suc n)
  then have le: "unat (retry a) \<le> 10"
    by simp
  then have ngt: "\<not> 10 < retry a"
    by (simp add: word_less_nat_alt)
  from le have u: "unat (retry a + 1) = unat (retry a) + 1"
    by (simp add: unat_word_ariths)
  from write_step_fail [of a dev k msg] Suc.prems assms(3,4) ngt
  obtain q where q: "replyMsgSentCheck \<notin> set q" and qtl: "q = tl (readC a @ snd (dev k))"
    and w: "asustor_write dev k msg a = asustor_write dev (k + 1) msg
                (a\<lparr>iolog := iolog a @ [ConWrite (makemsg msg)], readC := q, retry := retry a + 1\<rparr>)"
    by auto
  let ?b = "a\<lparr>iolog := iolog a @ [ConWrite (makemsg msg)], readC := q, retry := retry a + 1\<rparr>"
  have "n = 11 - unat (retry ?b)"
    using Suc.hyps(2) u by simp
  moreover have "open ?b" using Suc.prems(1) by simp
  moreover have "unat (retry ?b) \<le> 11" using le u by simp
  moreover have "replyMsgSentCheck \<notin> set (readC ?b)" using q by simp
  ultimately obtain q' where
    r: "asustor_write dev (k + 1) msg ?b =
      (Some ErrDisplayNotWorking,
       ?b\<lparr>iolog := iolog ?b @ replicate (12 - unat (retry ?b)) (ConWrite (makemsg msg)),
         readC := q', retry := 11\<rparr>)" and q': "replyMsgSentCheck \<notin> set q'"
      and e': "readC ?b = [] \<and> (\<forall>k. snd (dev k) = []) \<longrightarrow> q' = []"
    using Suc.hyps(1) [of ?b "k + 1"] by blast
  have "12 - unat (retry a) = Suc (12 - unat (retry ?b))"
    using le u by simp
  then have "iolog ?b @ replicate (12 - unat (retry ?b)) (ConWrite (makemsg msg))
      = iolog a @ replicate (12 - unat (retry a)) (ConWrite (makemsg msg))"
    by simp
  moreover have "readC a = [] \<and> (\<forall>k. snd (dev k) = []) \<longrightarrow> q' = []"
    using e' qtl by simp
  ultimately show ?case
    using r w q' by auto
qed


lemma retry_succ_le:
  fixes r :: byte
  assumes "\<not> 10 < r"
  shows "r \<le> r + 1"
proof -
  from assms have le: "unat r \<le> 10"
    by (simp add: word_less_nat_alt)
  then have "unat (r + 1) = unat r + 1"
    by (simp add: unat_word_ariths)
  then show ?thesis
    by (simp add: word_le_nat_alt)
qed

lemma write_effect:
  "(fst (asustor_write dev k msg a) = None \<longrightarrow> retry (snd (asustor_write dev k msg a)) = 0)
   \<and> (fst (asustor_write dev k msg a) \<noteq> None \<longrightarrow>
        retry a \<le> retry (snd (asustor_write dev k msg a)))
   \<and> (fst (asustor_write dev k msg a) = Some ErrDisplayNotWorking \<longrightarrow>
        10 < retry (snd (asustor_write dev k msg a)))
   \<and> (\<exists>n. iolog (snd (asustor_write dev k msg a))
             = iolog a @ replicate n (ConWrite (makemsg msg)) \<and> (open a \<longrightarrow> 0 < n))"
proof (induction dev k msg a rule: asustor_write.induct)
  case (1 dev k msg a)
  show ?case
  proof (cases "open a")
    case False
    then have "asustor_write dev k msg a = (Some ErrClosed, a)"
      by (subst asustor_write.simps) simp
    then show ?thesis
      using False by simp
  next
    case True
    let ?a1 = "a\<lparr>iolog := iolog a @ [ConWrite (makemsg msg)]\<rparr>"
    obtain e where f: "flush msg (fst (dev k)) a = (e, ?a1)"
      and e1: "e \<noteq> Some ErrDisplayNotWorking"
      using flush_cases [of msg "fst (dev k)" a] by blast
    have one: "iolog ?a1 = iolog a @ replicate 1 (ConWrite (makemsg msg))"
      by simp
    show ?thesis
    proof (cases e)
      case (Some err)
      then have "asustor_write dev k msg a = (Some err, ?a1)"
        using True f by (subst asustor_write.simps) simp
      then show ?thesis
        using e1 Some one by (auto intro: exI [of _ 1])
    next
      case None
      obtain b q where r: "asustor_responseEqual [replyMsgSentCheck] (snd (dev k)) ?a1
          = (b, ?a1\<lparr>readC := q\<rparr>)"
        using responseEqual_cases [of "[replyMsgSentCheck]" "snd (dev k)" ?a1] by blast
      let ?a2 = "?a1\<lparr>readC := q\<rparr>"
      show ?thesis
      proof (cases b)
        case True
        then have "asustor_write dev k msg a = (None, ?a2\<lparr>retry := 0\<rparr>)"
          using \<open>open a\<close> f None r by (subst asustor_write.simps) simp
        then show ?thesis
          by (auto intro: exI [of _ 1])
      next
        case nb: False
        show ?thesis
        proof (cases "10 < retry a")
          case True
          then have "asustor_write dev k msg a = (Some ErrDisplayNotWorking, ?a2)"
            using \<open>open a\<close> f None r nb by (subst asustor_write.simps) simp
          then show ?thesis
            using True by (auto intro: exI [of _ 1])
        next
          case False
          let ?a3 = "?a2\<lparr>retry := retry ?a2 + 1\<rparr>"
          have w: "asustor_write dev k msg a = asustor_write dev (k + 1) msg ?a3"
            using \<open>open a\<close> f None r nb False by (subst asustor_write.simps) simp
          have ih: "(fst (asustor_write dev (k + 1) msg ?a3) = None \<longrightarrow>
                retry (snd (asustor_write dev (k + 1) msg ?a3)) = 0)
            \<and> (fst (asustor_write dev (k + 1) msg ?a3) \<noteq> None \<longrightarrow>
                retry ?a3 \<le> retry (snd (asustor_write dev (k + 1) msg ?a3)))
            \<and> (fst (asustor_write dev (k + 1) msg ?a3) = Some ErrDisplayNotWorking \<longrightarrow>
                10 < retry (snd (asustor_write dev (k + 1) msg ?a3)))
            \<and> (\<exists>n. iolog (snd (asustor_write dev (k + 1) msg ?a3))
                 = iolog ?a3 @ replicate n (ConWrite (makemsg msg)) \<and> (open ?a3 \<longrightarrow> 0 < n))"
          proof (rule "1.IH")
            show "\<not> \<not> open a" using \<open>open a\<close> by simp
            show "(e, ?a1) = flush msg (fst (dev k)) a" using f by simp
            show "e = None" by (rule None)
            show "(b, ?a2) = asustor_responseEqual [replyMsgSentCheck] (snd (dev k)) ?a1"
              using r by simp
            show "b = False" using nb by simp
            show "\<not> 10 < retry ?a2" using False by simp
          qed
          from ih obtain n where n: "iolog (snd (asustor_write dev (k + 1) msg ?a3))
                 = iolog ?a3 @ replicate n (ConWrite (makemsg msg))"
            by blast
          have "iolog ?a3 @ replicate n (ConWrite (makemsg msg))
              = iolog a @ replicate (Suc n) (ConWrite (makemsg msg))"
            by simp
          with n have lg: "iolog (snd (asustor_write dev k msg a))
              = iolog a @ replicate (Suc n) (ConWrite (makemsg msg))"
            using w by simp
          have up: "retry a \<le> retry ?a3"
            using retry_succ_le [OF False] by simp
          from ih have "fst (asustor_write dev k msg a) \<noteq> None \<longrightarrow>
                retry a \<le> retry (snd (asustor_write dev k msg a))"
            using up w by auto
          moreover from ih have "fst (asustor_write dev k msg a) = None \<longrightarrow>
                retry (snd (asustor_write dev k msg a)) = 0"
            using w by simp
          moreover from ih have "fst (asustor_write dev k msg a) = Some ErrDisplayNotWorking \<longrightarrow>
                10 < retry (snd (asustor_write dev k msg a))"
            using w by simp
          moreover from lg have "\<exists>n. iolog (snd (asustor_write dev k msg a))
             = iolog a @ replicate n (ConWrite (makemsg msg)) \<and> (open a \<longrightarrow> 0 < n)"
            by blast
          ultimately show ?thesis
            by blast
        qed
      qed
    qed
  qed
qed

lemma write_above_bound:
  assumes "open a" and "10 < retry a"
  shows "iolog (snd (asustor_write dev k msg a)) = iolog a @ [ConWrite (makemsg msg)]
    \<and> (fst (asustor_write dev k msg a) = None \<and> retry (snd (asustor_write dev k msg a)) = 0
       \<or> fst (asustor_write dev k msg a) \<noteq> None
          \<and> retry (snd (asustor_write dev k msg a)) = retry a)"
proof -
  let ?a1 = "a\<lparr>iolog := iolog a @ [ConWrite (makemsg msg)]\<rparr>"
  obtain e where f: "flush msg (fst (dev k)) a = (e, ?a1)"
    using flush_cases [of msg "fst (dev k)" a] by blast
  obtain b q where r: "asustor_responseEqual [replyMsgSentCheck] (snd (dev k)) ?a1
      = (b, ?a1\<lparr>readC := q\<rparr>)"
    using responseEqual_cases [of "[replyMsgSentCheck]" "snd (dev k)" ?a1] by blast
  have "asustor_write dev k msg a =
      (case e of Some err \<Rightarrow> (Some err, ?a1)
       | None \<Rightarrow> if b then (None, ?a1\<lparr>readC := q, retry := 0\<rparr>)
                 else (Some ErrDisplayNotWorking, ?a1\<lparr>readC := q\<rparr>))"
    using assms f r by (subst asustor_write.simps) (simp split: option.splits)
  then show ?thesis
    by (cases e; cases b) simp_all
qed

lemma length_write_frame: "length (makemsg (strToBytes line t)) = 22"
  by (simp add: makemsg_def strToBytes_def createMsg_def bytes_of_def prepareTxt_def Let_def)

lemma length_write_frame_LCD: "length (makemsg (asustorLCD_strToBytes line t)) = 22"
  by (simp add: makemsg_def asustorLCD_strToBytes_def bytes_of_def Let_def)

lemma asustorLCD_Write_unacked:
  assumes "open b" and "w = (length (makemsg (asustorLCD_strToBytes line text)), False)"
    and "readC b @ arrived = f # q" and "f \<noteq> cmdMsgSentCheck"
  shows "asustorLCD_Write w arrived line text b =
      (Returned (Some ErrDisplayNotWorking),
       b\<lparr>iolog := iolog b @ [ConWrite (makemsg (asustorLCD_strToBytes line text))], readC := q\<rparr>)"
  using assms
  by (simp add: asustorLCD_Write_def flush_def Let_def asustorLCD_isMsgSent_def
      asustorLCD_isMsgSent_recv_def recv_def)

lemma Write_exhausts:
  assumes "open a" and "retry a = 0"
    and "\<forall>k. fst (dev k) = (length (makemsg (strToBytes line text)), False)"
    and "\<forall>k. replyMsgSentCheck \<notin> set (snd (dev k))"
    and "replyMsgSentCheck \<notin> set (readC a)"
  shows "fst (asustor_Write dev line text a) = Some ErrDisplayNotWorking
    \<and> iolog (snd (asustor_Write dev line text a))
        = iolog a @ replicate 12 (ConWrite (makemsg (strToBytes line text)))
    \<and> retry (snd (asustor_Write dev line text a)) = 11"
proof -
  from assms(2) have "unat (retry a) \<le> 11"
    by simp
  with assms(1,3,4,5) obtain q' where
    "asustor_write dev 0 (strToBytes line text) a =
      (Some ErrDisplayNotWorking,
       a\<lparr>iolog := iolog a @ replicate (12 - unat (retry a)) (ConWrite (makemsg (strToBytes line text))),
         readC := q', retry := 11\<rparr>)"
    using write_exhaust [of a dev "strToBytes line text" 0] by blast
  then show ?thesis
    using assms(2) by (simp add: asustor_Write_def)
qed

text \<open>
  C1 (as amended).  In the variant with the lock, on an open session whose retry counter
  is 0, when every write is accepted by the transport and no wait on the ack channel meets
  the message-sent reply (it times out or receives another frame), \<^verbatim>\<open>Write\<close> returns
  \<^verbatim>\<open>ErrDisplayNotWorking\<close> after exactly 12 transmissions of the frame, and leaves the
  counter at 11; that the call returns at all is the termination of \<open>asustor_write\<close>, for
  every device.  In asustor.go, where nothing is retried, a \<^verbatim>\<open>Write\<close> on an open session
  that receives a frame other than the message-sent reply returns
  \<^verbatim>\<open>ErrDisplayNotWorking\<close> after the one transmission.
\<close>

theorem asustor_Write_retry_bound:
  "(open a \<and> retry a = 0
      \<and> (\<forall>k. fst (dev k) = (length (makemsg (strToBytes line text)), False))
      \<and> (\<forall>k. replyMsgSentCheck \<notin> set (snd (dev k)))
      \<and> replyMsgSentCheck \<notin> set (readC a) \<longrightarrow>
    fst (asustor_Write dev line text a) = Some ErrDisplayNotWorking
    \<and> iolog (snd (asustor_Write dev line text a))
        = iolog a @ replicate 12 (ConWrite (makemsg (strToBytes line text)))
    \<and> retry (snd (asustor_Write dev line text a)) = 11)
   \<and> (open b \<and> w = (length (makemsg (asustorLCD_strToBytes line text)), False)
      \<and> readC b @ arrived = f # q \<and> f \<noteq> cmdMsgSentCheck \<longrightarrow>
    fst (asustorLCD_Write w arrived line text b) = Returned (Some ErrDisplayNotWorking)
    \<and> iolog (snd (asustorLCD_Write w arrived line text b))
        = iolog b @ [ConWrite (makemsg (asustorLCD_strToBytes line text))])"
proof -
  have "open b \<and> w = (length (makemsg (asustorLCD_strToBytes line text)), False)
      \<and> readC b @ arrived = f # q \<and> f \<noteq> cmdMsgSentCheck \<longrightarrow>
    fst (asustorLCD_Write w arrived line text b) = Returned (Some ErrDisplayNotWorking)
    \<and> iolog (snd (asustorLCD_Write w arrived line text b))
        = iolog b @ [ConWrite (makemsg (asustorLCD_strToBytes line text))]"
    using asustorLCD_Write_unacked [of b w line "text" arrived f q] by simp
  then show ?thesis
    using Write_exhausts [of a dev line "text"] by blast
qed

lemma silent_ok: "\<forall>k. fst (silent k) = (length (makemsg (strToBytes line text)), False)"
  by (simp add: silent_def length_write_frame)

lemma silent_quiet: "\<forall>k. replyMsgSentCheck \<notin> set (snd (silent k))" "\<forall>k. snd (silent k) = []"
  by (simp_all add: silent_def)

theorem asustor_Write_retry_bound_witness:
  "open fresh_asustor \<and> retry fresh_asustor = 0
   \<and> (\<forall>k. fst (silent k) = (length (makemsg (strToBytes 0 ''Hi'')), False))
   \<and> (\<forall>k. replyMsgSentCheck \<notin> set (snd (silent k)))
   \<and> replyMsgSentCheck \<notin> set (readC fresh_asustor)
   \<and> open fresh_asustorLCD
   \<and> readC fresh_asustorLCD @ [[241, 1, 39, 4, 29]] = [241, 1, 39, 4, 29] # []
   \<and> [241, 1, 39, 4, 29] \<noteq> cmdMsgSentCheck
   \<and> fst (asustor_Write silent 0 ''Hi'' fresh_asustor) = Some ErrDisplayNotWorking
   \<and> iolog (snd (asustor_Write silent 0 ''Hi'' fresh_asustor))
       = replicate 12 (ConWrite (makemsg (strToBytes 0 ''Hi'')))
   \<and> fst (asustorLCD_Write (22, False) [[241, 1, 39, 4, 29]] 0 ''Hi'' fresh_asustorLCD)
       = Returned (Some ErrDisplayNotWorking)
   \<and> iolog (snd (asustorLCD_Write (22, False) [[241, 1, 39, 4, 29]] 0 ''Hi'' fresh_asustorLCD))
       = [ConWrite (makemsg (asustorLCD_strToBytes 0 ''Hi''))]"
proof -
  have 1: "open fresh_asustor" and 2: "retry fresh_asustor = 0"
    and 5: "replyMsgSentCheck \<notin> set (readC fresh_asustor)"
    by (simp_all add: fresh_asustor_def)
  have 6: "open fresh_asustorLCD"
    and 8: "readC fresh_asustorLCD @ [[241, 1, 39, 4, 29]] = [241, 1, 39, 4, 29] # []"
    by (simp_all add: fresh_asustorLCD_def)
  have 7: "(22, False) = (length (makemsg (asustorLCD_strToBytes 0 ''Hi'')), False)"
    by (simp add: length_write_frame_LCD)
  have 9: "[241, 1, 39, 4, 29] \<noteq> cmdMsgSentCheck"
    by (simp add: cmdMsgSentCheck_def cmdRdy_def)
  have i: "iolog fresh_asustor = []" "iolog fresh_asustorLCD = []"
    by (simp_all add: fresh_asustor_def fresh_asustorLCD_def)
  from asustor_Write_retry_bound [of fresh_asustor silent 0 "''Hi''" fresh_asustorLCD
      "(22, False)" "[[241, 1, 39, 4, 29]]" "[241, 1, 39, 4, 29]" "[]"]
    1 2 5 6 7 8 9 silent_ok [of 0 "''Hi''"] silent_quiet(1) i
  show ?thesis
    by simp
qed

lemma exhausted_eq:
  "asustor_Write silent 0 ''Hi'' fresh_asustor = (Some ErrDisplayNotWorking, exhausted)"
  "exhausted = fresh_asustor\<lparr>iolog := replicate 12 (ConWrite (makemsg (strToBytes 0 ''Hi''))),
      retry := 11\<rparr>"
proof -
  have "open fresh_asustor" "unat (retry fresh_asustor) \<le> 11"
    "replyMsgSentCheck \<notin> set (readC fresh_asustor)" "readC fresh_asustor = []"
    "iolog fresh_asustor = []" "retry fresh_asustor = 0"
    by (simp_all add: fresh_asustor_def)
  then obtain q where w: "asustor_write silent 0 (strToBytes 0 ''Hi'') fresh_asustor =
      (Some ErrDisplayNotWorking,
       fresh_asustor\<lparr>iolog := replicate 12 (ConWrite (makemsg (strToBytes 0 ''Hi''))),
         readC := q, retry := 11\<rparr>)" and "q = []"
    using write_exhaust [of fresh_asustor silent "strToBytes 0 ''Hi''" 0] silent_ok [of 0 "''Hi''"] silent_quiet
    by auto
  moreover have "fresh_asustor\<lparr>iolog := replicate 12 (ConWrite (makemsg (strToBytes 0 ''Hi''))),
         readC := [], retry := 11\<rparr> = fresh_asustor\<lparr>iolog := replicate 12 (ConWrite (makemsg (strToBytes 0 ''Hi''))),
      retry := 11\<rparr>"
    by (simp add: fresh_asustor_def)
  ultimately show "asustor_Write silent 0 ''Hi'' fresh_asustor = (Some ErrDisplayNotWorking, exhausted)"
    and "exhausted = fresh_asustor\<lparr>iolog := replicate 12 (ConWrite (makemsg (strToBytes 0 ''Hi''))),
      retry := 11\<rparr>"
    by (simp_all add: exhausted_def asustor_Write_def)
qed

lemma exhausted_fields:
  "open exhausted" "retry exhausted = 11" "readC exhausted = []"
  "iolog exhausted = replicate 12 (ConWrite (makemsg (strToBytes 0 ''Hi'')))"
  by (simp_all add: exhausted_eq(2) fresh_asustor_def)

lemma second_write:
  "fst (asustor_Write silent 0 ''Hi'' exhausted) = Some ErrDisplayNotWorking"
  "iolog (snd (asustor_Write silent 0 ''Hi'' exhausted))
     = iolog exhausted @ [ConWrite (makemsg (strToBytes 0 ''Hi''))]"
proof -
  have "unat (retry exhausted) \<le> 11" "replyMsgSentCheck \<notin> set (readC exhausted)"
    by (simp_all add: exhausted_fields)
  then obtain q where "asustor_write silent 0 (strToBytes 0 ''Hi'') exhausted =
      (Some ErrDisplayNotWorking,
       exhausted\<lparr>iolog := iolog exhausted @ replicate (12 - unat (retry exhausted))
          (ConWrite (makemsg (strToBytes 0 ''Hi''))), readC := q, retry := 11\<rparr>)"
    using write_exhaust [of exhausted silent "strToBytes 0 ''Hi''" 0] silent_ok [of 0 "''Hi''"] silent_quiet
      exhausted_fields(1)
    by blast
  then show "fst (asustor_Write silent 0 ''Hi'' exhausted) = Some ErrDisplayNotWorking"
    and "iolog (snd (asustor_Write silent 0 ''Hi'' exhausted))
     = iolog exhausted @ [ConWrite (makemsg (strToBytes 0 ''Hi''))]"
    by (simp_all add: asustor_Write_def exhausted_fields(2))
qed

text \<open>
  The bound is not 10 and not the same for every call: on a fresh session the first
  unacknowledged \<^verbatim>\<open>Write\<close> transmits 12 times, the next one on the same session once.
\<close>

theorem write_attempts_counterexample:
  "fst (asustor_Write silent 0 ''Hi'' fresh_asustor) = Some ErrDisplayNotWorking
   \<and> length (iolog (snd (asustor_Write silent 0 ''Hi'' fresh_asustor))) = 12
   \<and> fst (asustor_Write silent 0 ''Hi'' (snd (asustor_Write silent 0 ''Hi'' fresh_asustor)))
       = Some ErrDisplayNotWorking
   \<and> length (iolog (snd (asustor_Write silent 0 ''Hi''
        (snd (asustor_Write silent 0 ''Hi'' fresh_asustor))))) = 12 + 1"
  by (simp add: exhausted_eq(1) second_write exhausted_fields)

subsection \<open>The retry counter\<close>

lemma write_above_bound_result:
  assumes "open a" and "10 < retry a" and "fst (dev k) = (length (makemsg msg), False)"
  shows "(\<exists>q. readC a @ snd (dev k) = replyMsgSentCheck # q) \<longrightarrow>
           fst (asustor_write dev k msg a) = None"
    and "\<not> (\<exists>q. readC a @ snd (dev k) = replyMsgSentCheck # q) \<longrightarrow>
           fst (asustor_write dev k msg a) = Some ErrDisplayNotWorking"
proof -
  let ?a1 = "a\<lparr>iolog := iolog a @ [ConWrite (makemsg msg)]\<rparr>"
  have f: "flush msg (fst (dev k)) a = (None, ?a1)"
    using assms(3) by (simp add: flush_ok)
  obtain b q where r: "asustor_responseEqual [replyMsgSentCheck] (snd (dev k)) ?a1
      = (b, ?a1\<lparr>readC := q\<rparr>)"
    and ok: "b \<longrightarrow> (\<exists>res. readC ?a1 @ snd (dev k) = res # q \<and> res \<in> set [replyMsgSentCheck])"
    using responseEqual_cases [of "[replyMsgSentCheck]" "snd (dev k)" ?a1] by blast
  have w: "asustor_write dev k msg a =
      (if b then (None, ?a1\<lparr>readC := q, retry := 0\<rparr>)
       else (Some ErrDisplayNotWorking, ?a1\<lparr>readC := q\<rparr>))"
    using assms(1,2) f r by (subst asustor_write.simps) simp
  show "(\<exists>q. readC a @ snd (dev k) = replyMsgSentCheck # q) \<longrightarrow>
           fst (asustor_write dev k msg a) = None"
  proof
    assume "\<exists>q. readC a @ snd (dev k) = replyMsgSentCheck # q"
    then obtain q' where "readC ?a1 @ snd (dev k) = replyMsgSentCheck # q'"
      by auto
    with assms(1) have "asustor_responseEqual [replyMsgSentCheck] (snd (dev k)) ?a1
        = (True, ?a1\<lparr>readC := q'\<rparr>)"
      using responseEqual_ack [of ?a1 "snd (dev k)" q'] by simp
    with r have b
      by simp
    with w show "fst (asustor_write dev k msg a) = None"
      by simp
  qed
  show "\<not> (\<exists>q. readC a @ snd (dev k) = replyMsgSentCheck # q) \<longrightarrow>
           fst (asustor_write dev k msg a) = Some ErrDisplayNotWorking"
  proof
    assume n: "\<not> (\<exists>q. readC a @ snd (dev k) = replyMsgSentCheck # q)"
    have "\<not> b"
    proof
      assume b
      with ok have "\<exists>q. readC a @ snd (dev k) = replyMsgSentCheck # q"
        by auto
      with n show False
        by simp
    qed
    with w show "fst (asustor_write dev k msg a) = Some ErrDisplayNotWorking"
      by simp
  qed
qed

text \<open>
  C10 (as amended).  The retry counter of the variant with the lock is a field of the
  session.  Whatever the call, a \<^verbatim>\<open>Write\<close> that succeeds leaves it at 0, one that fails
  never lowers it, and one that returns \<^verbatim>\<open>ErrDisplayNotWorking\<close> leaves it above 10.
  On an open session whose counter is above 10 a \<^verbatim>\<open>Write\<close> transmits exactly once, with
  no retry: if the wait meets the message-sent reply it succeeds and resets the counter to
  0, otherwise it returns \<^verbatim>\<open>ErrDisplayNotWorking\<close> and leaves the counter as it was.
\<close>

theorem asustor_retry_counter:
  assumes "open a" and "10 < retry a"
    and "fst (dev 0) = (length (makemsg (strToBytes line t)), False)"
  shows "(fst (asustor_Write devb lineb tb b) = None \<longrightarrow>
            retry (snd (asustor_Write devb lineb tb b)) = 0)
    \<and> (fst (asustor_Write devb lineb tb b) \<noteq> None \<longrightarrow>
            retry b \<le> retry (snd (asustor_Write devb lineb tb b)))
    \<and> (fst (asustor_Write devb lineb tb b) = Some ErrDisplayNotWorking \<longrightarrow>
            10 < retry (snd (asustor_Write devb lineb tb b)))
    \<and> iolog (snd (asustor_Write dev line t a))
         = iolog a @ [ConWrite (makemsg (strToBytes line t))]
    \<and> (if \<exists>q. readC a @ snd (dev 0) = replyMsgSentCheck # q
        then fst (asustor_Write dev line t a) = None
             \<and> retry (snd (asustor_Write dev line t a)) = 0
        else fst (asustor_Write dev line t a) = Some ErrDisplayNotWorking
             \<and> retry (snd (asustor_Write dev line t a)) = retry a)"
proof -
  have gen: "(fst (asustor_Write devb lineb tb b) = None \<longrightarrow>
            retry (snd (asustor_Write devb lineb tb b)) = 0)
    \<and> (fst (asustor_Write devb lineb tb b) \<noteq> None \<longrightarrow>
            retry b \<le> retry (snd (asustor_Write devb lineb tb b)))
    \<and> (fst (asustor_Write devb lineb tb b) = Some ErrDisplayNotWorking \<longrightarrow>
            10 < retry (snd (asustor_Write devb lineb tb b)))"
    using write_effect [of devb 0 "strToBytes lineb tb" b]
    unfolding asustor_Write_def by blast
  have one: "iolog (snd (asustor_Write dev line t a))
         = iolog a @ [ConWrite (makemsg (strToBytes line t))]"
    and alt: "fst (asustor_Write dev line t a) = None
           \<and> retry (snd (asustor_Write dev line t a)) = 0
       \<or> fst (asustor_Write dev line t a) \<noteq> None
           \<and> retry (snd (asustor_Write dev line t a)) = retry a"
    using write_above_bound [OF assms(1,2), of dev 0 "strToBytes line t"]
    unfolding asustor_Write_def by blast+
  have res: "(\<exists>q. readC a @ snd (dev 0) = replyMsgSentCheck # q) \<longrightarrow>
           fst (asustor_Write dev line t a) = None"
     "\<not> (\<exists>q. readC a @ snd (dev 0) = replyMsgSentCheck # q) \<longrightarrow>
           fst (asustor_Write dev line t a) = Some ErrDisplayNotWorking"
    using write_above_bound_result [where a = a and dev = dev and k = 0
        and msg = "strToBytes line t"] assms
    unfolding asustor_Write_def by blast+
  have last: "if \<exists>q. readC a @ snd (dev 0) = replyMsgSentCheck # q
        then fst (asustor_Write dev line t a) = None
             \<and> retry (snd (asustor_Write dev line t a)) = 0
        else fst (asustor_Write dev line t a) = Some ErrDisplayNotWorking
             \<and> retry (snd (asustor_Write dev line t a)) = retry a"
    using res alt by (cases "\<exists>q. readC a @ snd (dev 0) = replyMsgSentCheck # q") auto
  from gen one last show ?thesis
    by blast
qed


lemma acking_ok: "fst (acking k) = (length (makemsg (strToBytes line text)), False)"
  by (simp add: acking_def length_write_frame)

theorem asustor_retry_counter_witness:
  "open exhausted \<and> 10 < retry exhausted
   \<and> fst (silent 0) = (length (makemsg (strToBytes 0 ''Hi'')), False)
   \<and> fst (acking 0) = (length (makemsg (strToBytes 0 ''Hi'')), False)
   \<and> iolog (snd (asustor_Write silent 0 ''Hi'' exhausted))
       = iolog exhausted @ [ConWrite (makemsg (strToBytes 0 ''Hi''))]
   \<and> fst (asustor_Write silent 0 ''Hi'' exhausted) = Some ErrDisplayNotWorking
   \<and> retry (snd (asustor_Write silent 0 ''Hi'' exhausted)) = 11
   \<and> iolog (snd (asustor_Write acking 0 ''Hi'' exhausted))
       = iolog exhausted @ [ConWrite (makemsg (strToBytes 0 ''Hi''))]
   \<and> fst (asustor_Write acking 0 ''Hi'' exhausted) = None
   \<and> retry (snd (asustor_Write acking 0 ''Hi'' exhausted)) = 0"
proof -
  have o: "open exhausted" and r: "10 < retry exhausted"
    by (simp_all add: exhausted_fields)
  have s: "fst (silent 0) = (length (makemsg (strToBytes 0 ''Hi'')), False)"
    using silent_ok by blast
  have k: "fst (acking 0) = (length (makemsg (strToBytes 0 ''Hi'')), False)"
    by (rule acking_ok)
  have ns: "\<not> (\<exists>q. readC exhausted @ snd (silent 0) = replyMsgSentCheck # q)"
    by (simp add: exhausted_fields silent_def)
  have ak: "\<exists>q. readC exhausted @ snd (acking 0) = replyMsgSentCheck # q"
    by (simp add: exhausted_fields acking_def)
  from asustor_retry_counter [where a = exhausted and dev = silent and line = 0
      and t = "''Hi''" and b = exhausted and devb = silent and lineb = 0
      and tb = "''Hi''"]
    asustor_retry_counter [where a = exhausted and dev = acking and line = 0
      and t = "''Hi''" and b = exhausted and devb = acking and lineb = 0
      and tb = "''Hi''"]
    o r s k ns ak
  show ?thesis
    by (simp add: exhausted_fields(2))
qed

lemma revived_eq:
  "asustor_Write acking 0 ''Hi'' exhausted = (None, revived)"
  "open revived" "retry revived = 0" "readC revived = []"
proof -
  let ?a1 = "exhausted\<lparr>iolog := iolog exhausted @ [ConWrite (makemsg (strToBytes 0 ''Hi''))]\<rparr>"
  have f: "flush (strToBytes 0 ''Hi'') (fst (acking 0)) exhausted = (None, ?a1)"
    using acking_ok [of 0 0 "''Hi''"] by (simp add: flush_ok)
  have "open ?a1" and "readC ?a1 @ snd (acking 0) = replyMsgSentCheck # []"
    by (simp_all add: exhausted_fields acking_def)
  then have r: "asustor_responseEqual [replyMsgSentCheck] (snd (acking 0)) ?a1
      = (True, ?a1\<lparr>readC := []\<rparr>)"
    by (rule responseEqual_ack)
  have w: "asustor_write acking 0 (strToBytes 0 ''Hi'') exhausted
      = (None, ?a1\<lparr>readC := [], retry := 0\<rparr>)"
    using exhausted_fields(1) f r by (subst asustor_write.simps) simp
  then show "asustor_Write acking 0 ''Hi'' exhausted = (None, revived)"
    by (simp add: revived_def asustor_Write_def)
  from w have rv: "revived = ?a1\<lparr>readC := [], retry := 0\<rparr>"
    by (simp add: revived_def asustor_Write_def)
  show "open revived" "retry revived = 0" "readC revived = []"
    unfolding rv by (simp_all add: exhausted_fields)
qed

lemma third_write:
  "fst (asustor_Write silent 0 ''Hi'' revived) = Some ErrDisplayNotWorking"
  "iolog (snd (asustor_Write silent 0 ''Hi'' revived))
     = iolog revived @ replicate 12 (ConWrite (makemsg (strToBytes 0 ''Hi'')))"
proof -
  have "unat (retry revived) \<le> 11" "replyMsgSentCheck \<notin> set (readC revived)"
    by (simp_all add: revived_eq)
  then obtain q where "asustor_write silent 0 (strToBytes 0 ''Hi'') revived =
      (Some ErrDisplayNotWorking,
       revived\<lparr>iolog := iolog revived @ replicate (12 - unat (retry revived))
          (ConWrite (makemsg (strToBytes 0 ''Hi''))), readC := q, retry := 11\<rparr>)"
    using write_exhaust [of revived silent "strToBytes 0 ''Hi''" 0] silent_ok [of 0 "''Hi''"]
      silent_quiet revived_eq(2)
    by blast
  then show "fst (asustor_Write silent 0 ''Hi'' revived) = Some ErrDisplayNotWorking"
    and "iolog (snd (asustor_Write silent 0 ''Hi'' revived))
     = iolog revived @ replicate 12 (ConWrite (makemsg (strToBytes 0 ''Hi'')))"
    by (simp_all add: asustor_Write_def revived_eq(3))
qed

text \<open>
  Not every later \<^verbatim>\<open>Write\<close> fails after one attempt: after a \<^verbatim>\<open>Write\<close> has used up
  its retries, an acknowledged \<^verbatim>\<open>Write\<close> succeeds and resets the counter, and the
  unacknowledged \<^verbatim>\<open>Write\<close> after that transmits 12 times again.
\<close>

theorem later_write_succeeds_counterexample:
  "fst (asustor_Write silent 0 ''Hi'' fresh_asustor) = Some ErrDisplayNotWorking
   \<and> exhausted = snd (asustor_Write silent 0 ''Hi'' fresh_asustor)
   \<and> fst (asustor_Write acking 0 ''Hi'' exhausted) = None
   \<and> revived = snd (asustor_Write acking 0 ''Hi'' exhausted)
   \<and> retry revived = 0
   \<and> fst (asustor_Write silent 0 ''Hi'' revived) = Some ErrDisplayNotWorking
   \<and> length (iolog (snd (asustor_Write silent 0 ''Hi'' revived))) = length (iolog revived) + 12"
  by (simp add: exhausted_eq(1) revived_eq third_write)

section \<open>The line argument\<close>

declare dec_nat.simps [simp del]
declare qnap_pad.simps [simp del]

lemma strToBytes_line_byte: "strToBytes line t ! 3 = word_of_int line"
  by (simp add: strToBytes_def createMsg_def)

lemma asustorLCD_strToBytes_line_byte: "asustorLCD_strToBytes line t ! 3 = word_of_int line"
  by (simp add: asustorLCD_strToBytes_def Let_def)

lemma unat_line_byte: "unat (word_of_int line :: byte) = nat (line mod 256)"
  by (simp add: unat_eq_nat_uint uint_word_of_int)

lemma dec_nat_digit: "n < 10 \<Longrightarrow> dec_nat n = [char_of (48 + n)]"
  by (simp add: dec_nat.simps)

lemma h_line_digit:
  assumes "0 \<le> line" and "line \<le> 9"
  shows "h (''4d0c0'' @ itoa line @ ''10'') = [77, 12, word_of_int line, 16]"
proof -
  from assms have "line = 0 \<or> line = 1 \<or> line = 2 \<or> line = 3 \<or> line = 4 \<or> line = 5
      \<or> line = 6 \<or> line = 7 \<or> line = 8 \<or> line = 9"
    by arith
  then show ?thesis
    by (elim disjE) (simp_all add: itoa_def dec_nat_digit fromHexChar_def Let_def)
qed

lemma qnap_frame_digit:
  assumes "0 \<le> line" and "line \<le> 9"
  shows "take 4 (drop 3 (qnap_frame line t)) = [77, 12, word_of_int line, 16]"
proof -
  obtain t1 where "qnap_frame line t
      = cmdWrite @ h (''4d0c0'' @ itoa line @ ''10'') @ bytes_of t1"
    unfolding qnap_frame_def Let_def by blast
  then have "qnap_frame line t = cmdWrite @ [77, 12, word_of_int line, 16] @ bytes_of t1"
    by (simp only: h_line_digit [OF assms])
  then show ?thesis
    by (simp add: cmdWrite_def)
qed

lemma asustor_Write_first_frame:
  assumes "open a"
  shows "\<exists>n. iolog (snd (asustor_Write dev line t a))
      = iolog a @ ConWrite (makemsg (strToBytes line t)) # replicate n (ConWrite (makemsg (strToBytes line t)))"
proof -
  obtain n where "iolog (snd (asustor_write dev 0 (strToBytes line t) a))
      = iolog a @ replicate n (ConWrite (makemsg (strToBytes line t)))" and "0 < n"
    using write_effect [of dev 0 "strToBytes line t" a] assms by blast
  moreover from \<open>0 < n\<close> obtain m where "n = Suc m"
    by (cases n) auto
  ultimately show ?thesis
    by (auto simp: asustor_Write_def)
qed

text \<open>
  C8 (as amended).  No operation checks the range of the line argument.  On an open
  session the Asustor \<^verbatim>\<open>Write\<close> transmits, for any line, the frame whose fourth byte is
  \<^verbatim>\<open>byte(line)\<close>, the line modulo 256 (so 0 for line 0 and 1 for line 1), in both
  variants of \<^verbatim>\<open>strToBytes\<close>; the QNAP frame carries the line as the third byte of its
  header for every line from 0 to 9.
\<close>

theorem write_line_not_validated:
  "unat (strToBytes line t ! 3) = nat (line mod 256)
   \<and> unat (asustorLCD_strToBytes line t ! 3) = nat (line mod 256)
   \<and> (open a \<longrightarrow>
        (\<exists>n. iolog (snd (asustor_Write dev line t a))
          = iolog a @ ConWrite (makemsg (strToBytes line t))
              # replicate n (ConWrite (makemsg (strToBytes line t)))))
   \<and> (0 \<le> line \<and> line \<le> 9 \<longrightarrow>
        take 4 (drop 3 (qnap_frame line t)) = [77, 12, word_of_int line, 16])"
  using asustor_Write_first_frame [of a dev line t]
  by (simp add: strToBytes_line_byte asustorLCD_strToBytes_line_byte unat_line_byte
      qnap_frame_digit)

theorem write_line_not_validated_witness:
  "unat (strToBytes 1 ''Hello second line'' ! 3) = 1
   \<and> open fresh_asustor
   \<and> (\<exists>n. iolog (snd (asustor_Write silent 1 ''Hello second line'' fresh_asustor))
          = iolog fresh_asustor @ ConWrite (makemsg (strToBytes 1 ''Hello second line''))
              # replicate n (ConWrite (makemsg (strToBytes 1 ''Hello second line''))))
   \<and> (0::int) \<le> 1 \<and> (1::int) \<le> 9
   \<and> take 4 (drop 3 (qnap_frame 1 ''Hello second line'')) = [77, 12, 1, 16]"
proof -
  have o: "open fresh_asustor"
    by (simp add: fresh_asustor_def)
  from write_line_not_validated [of 1 "''Hello second line''" fresh_asustor silent] o
  show ?thesis
    by simp
qed

lemma line_two_written:
  "asustor_Write acking 2 ''x'' fresh_asustor
   = (None, fresh_asustor\<lparr>iolog := [ConWrite (makemsg (strToBytes 2 ''x''))]\<rparr>)"
proof -
  have f: "flush (strToBytes 2 ''x'') (fst (acking 0)) fresh_asustor
      = (None, fresh_asustor\<lparr>iolog := [ConWrite (makemsg (strToBytes 2 ''x''))]\<rparr>)"
    using acking_ok [of 0 2 "''x''"] by (simp add: flush_ok) (simp add: fresh_asustor_def)
  have r: "asustor_responseEqual [replyMsgSentCheck] (snd (acking 0))
        (fresh_asustor\<lparr>iolog := [ConWrite (makemsg (strToBytes 2 ''x''))]\<rparr>)
      = (True, fresh_asustor\<lparr>iolog := [ConWrite (makemsg (strToBytes 2 ''x''))], readC := []\<rparr>)"
    by (rule responseEqual_ack) (simp_all add: fresh_asustor_def acking_def)
  have "open fresh_asustor"
    by (simp add: fresh_asustor_def)
  then have "asustor_write acking 0 (strToBytes 2 ''x'') fresh_asustor
      = (None, fresh_asustor\<lparr>iolog := [ConWrite (makemsg (strToBytes 2 ''x''))], readC := [],
           retry := 0\<rparr>)"
    using f r by (subst asustor_write.simps) simp
  then show ?thesis
    by (simp add: asustor_Write_def fresh_asustor_def)
qed

lemma qnap_pad_short:
  "length t < 16 \<Longrightarrow> qnap_pad t = t @ replicate (16 - length t) (CHR '' '')"
  by (simp add: qnap_pad.simps [of t] qnap_pad.simps [of "t @ replicate (16 - length t) (CHR '' '')"])

lemma line_seven_frame: "length (qnap_frame 7 ''x'') = 23"
proof -
  have "h (''4d0c0'' @ itoa 7 @ ''10'') = [77, 12, 7, 16]"
    using h_line_digit [of 7] by simp
  then show ?thesis
    by (simp add: qnap_frame_def Let_def cmdWrite_def qnap_pad_short bytes_of_def
        del: h.simps append.simps)
qed

lemma line_seven_written:
  "qnap_Write (23, False) 7 ''x'' fresh_qnap
   = (None, fresh_qnap\<lparr>qlog := [ConWrite (qnap_frame 7 ''x'')]\<rparr>)"
  by (simp add: qnap_Write_def Let_def line_seven_frame fresh_qnap_def)

text \<open>
  A write to line 2 of an Asustor display and one to line 7 of a QNAP display are accepted
  and transmitted with that line in the frame.
\<close>

theorem line_out_of_range_counterexample:
  "fst (asustor_Write acking 2 ''x'' fresh_asustor) = None
   \<and> iolog (snd (asustor_Write acking 2 ''x'' fresh_asustor))
       = [ConWrite (makemsg (strToBytes 2 ''x''))]
   \<and> strToBytes 2 ''x'' ! 3 = 2
   \<and> fst (qnap_Write (23, False) 7 ''x'' fresh_qnap) = None
   \<and> qlog (snd (qnap_Write (23, False) 7 ''x'' fresh_qnap)) = [ConWrite (qnap_frame 7 ''x'')]
   \<and> take 4 (drop 3 (qnap_frame 7 ''x'')) = [77, 12, 7, 16]"
  using qnap_frame_digit [of 7 "''x''"]
  by (simp add: line_two_written line_seven_written strToBytes_line_byte)

section \<open>The Asustor listen loop\<close>

declare asustor_Listen_recv.simps [simp del]
declare asustorLCD_Listen_recv.simps [simp del]








section \<open>Opening the Asustor session\<close>

lemma sent_frames_simps [simp]:
  "sent_frames [] = []"
  "sent_frames (ConWrite d # log) = d # sent_frames log"
  "sent_frames (SerialOpen # log) = sent_frames log"
  "sent_frames (ConClose # log) = sent_frames log"
  "sent_frames (log @ log') = sent_frames log @ sent_frames log'"
  by (simp_all add: sent_frames_def)

lemma filled_full: "n \<le> length d \<Longrightarrow> filled n d = take n d"
  by (simp add: filled_def)

lemma isReady_eq:
  "asustorLCD_isReady r a =
     (case r of
        ReadOk d \<Rightarrow> (5 \<le> length d \<and> prefix cmdRdy (take 5 d), a)
      | ReadFailed \<Rightarrow> (False, snd (asustorLCD_forceClose None a)))"
proof (cases r)
  case (ReadOk d)
  show ?thesis
  proof (cases "5 \<le> length d")
    case True
    then show ?thesis
      using ReadOk
      by (simp add: asustorLCD_isReady_def asustorLCD_readWithTimeout_def filled_full)
  next
    case False
    then show ?thesis
      using ReadOk
      by (simp add: asustorLCD_isReady_def asustorLCD_readWithTimeout_def filled_def)
  qed
next
  case ReadFailed
  then show ?thesis
    by (simp add: asustorLCD_isReady_def asustorLCD_readWithTimeout_def filled_def)
qed



lemma isReady_ready: "fst (asustorLCD_isReady r a) \<Longrightarrow> snd (asustorLCD_isReady r a) = a"
  by (cases r) (simp_all add: isReady_eq)












section \<open>The read demultiplexer\<close>











lemma fresh_room:
  "open fresh_asustor" "length (btnC fresh_asustor) < 100" "length (readC fresh_asustor) < 100"
  "btnC fresh_asustor = []" "readC fresh_asustor = []"
  "open fresh_asustorLCD" "length (btnC fresh_asustorLCD) < 20"
  "length (readC fresh_asustorLCD) < 20"
  "btnC fresh_asustorLCD = []" "readC fresh_asustorLCD = []"
  by (simp_all add: fresh_asustor_def fresh_asustorLCD_def)




section \<open>Closing the session\<close>

lemma asustorLCD_Close_closed: "\<not> open b \<Longrightarrow> asustorLCD_Close c b = (None, b)"
  by (simp add: asustorLCD_Close_def)

lemma asustorLCD_Close_not_open: "\<not> open (snd (asustorLCD_Close c b))"
  by (simp add: asustorLCD_Close_def asustorLCD_forceClose_def Let_def conClose_def)

lemma asustor_Close_closed: "\<not> open a \<Longrightarrow> asustor_Close c a = (Returned None, a)"
  by (simp add: asustor_Close_def)

lemma asustor_Close_not_open: "\<not> open (snd (asustor_Close c a))"
  by (simp add: asustor_Close_def asustor_forceClose_def Let_def conClose_def send_def)

lemma asustor_Close_open:
  assumes "open a" and "con a" and "length (readC a) < 100" and "length (btnC a) < 100"
  shows "asustor_Close c a =
      (Returned c,
       a\<lparr>open := False, readC := readC a @ [[]], btnC := btnC a @ [[]],
         iolog := iolog a @ [ConClose]\<rparr>)"
  using assms by (simp add: asustor_Close_def asustor_forceClose_def Let_def conClose_def send_def)

lemma asustor_Listen_recv_closed:
  assumes "\<not> open a" and "btnC a = res # q"
  shows "asustor_Listen_recv l a = (Returned (), [], a\<lparr>btnC := q\<rparr>)"
  using assms by (subst asustor_Listen_recv.simps) (simp add: recv_def)

lemma asustor_write_closed: "\<not> open a \<Longrightarrow> asustor_write dev k msg a = (Some ErrClosed, a)"
  by (subst asustor_write.simps) simp

lemma asustor_write_open:
  "open a \<Longrightarrow> fst (asustor_write dev k msg a) \<noteq> Some ErrClosed"
proof (induction dev k msg a rule: asustor_write.induct)
  case (1 dev k msg a)
  let ?a1 = "a\<lparr>iolog := iolog a @ [ConWrite (makemsg msg)]\<rparr>"
  obtain e where f: "flush msg (fst (dev k)) a = (e, ?a1)" and e: "e \<noteq> Some ErrClosed"
    using flush_cases [of msg "fst (dev k)" a] by blast
  obtain b q where r: "asustor_responseEqual [replyMsgSentCheck] (snd (dev k)) ?a1
      = (b, ?a1\<lparr>readC := q\<rparr>)"
    using responseEqual_cases [of "[replyMsgSentCheck]" "snd (dev k)" ?a1] by blast
  let ?a2 = "?a1\<lparr>readC := q\<rparr>"
  show ?case
  proof (cases "e = None \<and> \<not> b \<and> \<not> 10 < retry a")
    case False
    have "asustor_write dev k msg a =
        (case e of
           Some err \<Rightarrow> (Some err, ?a1)
         | None \<Rightarrow>
             if b then (None, ?a2\<lparr>retry := 0\<rparr>)
             else if 10 < retry a then (Some ErrDisplayNotWorking, ?a2)
             else asustor_write dev (k + 1) msg (?a2\<lparr>retry := retry ?a2 + 1\<rparr>))"
      using "1.prems" f r by (subst asustor_write.simps) (simp split: option.splits)
    then show ?thesis
      using False e by (cases e) auto
  next
    case True
    let ?a3 = "?a2\<lparr>retry := retry ?a2 + 1\<rparr>"
    have w: "asustor_write dev k msg a = asustor_write dev (k + 1) msg ?a3"
      using "1.prems" f r True by (subst asustor_write.simps) simp
    have "fst (asustor_write dev (k + 1) msg ?a3) \<noteq> Some ErrClosed"
    proof (rule "1.IH")
      show "\<not> \<not> open a" using "1.prems" by simp
      show "(e, ?a1) = flush msg (fst (dev k)) a" using f by simp
      show "e = None" using True by simp
      show "(b, ?a2) = asustor_responseEqual [replyMsgSentCheck] (snd (dev k)) ?a1"
        using r by simp
      show "b = False" using True by simp
      show "\<not> 10 < retry ?a2" using True by simp
      show "open ?a3" using "1.prems" by simp
    qed
    with w show ?thesis
      by simp
  qed
qed

text \<open>
  C7 (as amended).  \<^verbatim>\<open>Close\<close> is idempotent in both variants: on a session that is not
  open it returns no error and changes nothing, and after any \<^verbatim>\<open>Close\<close> the session is
  not open.  In the variant with the lock, \<^verbatim>\<open>Close\<close> on an open session whose channels
  have room puts an empty frame on the ack channel and on the button channel; a
  \<^verbatim>\<open>Listen\<close> that was waiting on the button channel then receives a frame, finds the
  session closed and returns without calling the callback.  A \<^verbatim>\<open>Write\<close> begun after
  \<^verbatim>\<open>Close\<close> returns \<^verbatim>\<open>ErrClosed\<close> and writes nothing, in both variants; in the
  variant with the lock a \<^verbatim>\<open>Write\<close> that found the session open never returns
  \<^verbatim>\<open>ErrClosed\<close>.
\<close>

theorem Close_idempotent_and_wakes_Listen:
  "(\<not> open b \<longrightarrow> asustorLCD_Close c b = (None, b))
   \<and> asustorLCD_Close c' (snd (asustorLCD_Close c b)) = (None, snd (asustorLCD_Close c b))
   \<and> (\<not> open a \<longrightarrow> asustor_Close c a = (Returned None, a))
   \<and> asustor_Close c' (snd (asustor_Close c a)) = (Returned None, snd (asustor_Close c a))
   \<and> (open a \<and> con a \<and> length (readC a) < 100 \<and> length (btnC a) < 100 \<longrightarrow>
        fst (asustor_Close c a) = Returned c
        \<and> readC (snd (asustor_Close c a)) = readC a @ [[]]
        \<and> btnC (snd (asustor_Close c a)) = btnC a @ [[]]
        \<and> fst (asustor_Listen_recv l (snd (asustor_Close c a))) = Returned ()
        \<and> fst (snd (asustor_Listen_recv l (snd (asustor_Close c a)))) = [])
   \<and> asustor_Write dev line t (snd (asustor_Close c a))
        = (Some ErrClosed, snd (asustor_Close c a))
   \<and> asustorLCD_Write w arrived line t (snd (asustorLCD_Close c b))
        = (Returned (Some ErrClosed), snd (asustorLCD_Close c b))
   \<and> (open a \<longrightarrow> fst (asustor_Write dev line t a) \<noteq> Some ErrClosed)"
proof -
  have 1: "\<not> open b \<longrightarrow> asustorLCD_Close c b = (None, b)"
    by (simp add: asustorLCD_Close_closed)
  have 2: "asustorLCD_Close c' (snd (asustorLCD_Close c b)) = (None, snd (asustorLCD_Close c b))"
    by (rule asustorLCD_Close_closed) (rule asustorLCD_Close_not_open)
  have 3: "\<not> open a \<longrightarrow> asustor_Close c a = (Returned None, a)"
    by (simp add: asustor_Close_closed)
  have 4: "asustor_Close c' (snd (asustor_Close c a)) = (Returned None, snd (asustor_Close c a))"
    by (rule asustor_Close_closed) (rule asustor_Close_not_open)
  have 5: "open a \<and> con a \<and> length (readC a) < 100 \<and> length (btnC a) < 100 \<longrightarrow>
        fst (asustor_Close c a) = Returned c
        \<and> readC (snd (asustor_Close c a)) = readC a @ [[]]
        \<and> btnC (snd (asustor_Close c a)) = btnC a @ [[]]
        \<and> fst (asustor_Listen_recv l (snd (asustor_Close c a))) = Returned ()
        \<and> fst (snd (asustor_Listen_recv l (snd (asustor_Close c a)))) = []"
  proof (intro impI, elim conjE)
    assume h: "open a" "con a" "length (readC a) < 100" "length (btnC a) < 100"
    let ?a' = "a\<lparr>open := False, readC := readC a @ [[]], btnC := btnC a @ [[]],
         iolog := iolog a @ [ConClose]\<rparr>"
    have cl: "asustor_Close c a = (Returned c, ?a')"
      using h by (rule asustor_Close_open)
    obtain res q where rq: "btnC ?a' = res # q"
      by (cases "btnC a") simp_all
    have "\<not> open ?a'"
      by simp
    then have "asustor_Listen_recv l ?a' = (Returned (), [], ?a'\<lparr>btnC := q\<rparr>)"
      using rq by (rule asustor_Listen_recv_closed)
    then show "fst (asustor_Close c a) = Returned c
        \<and> readC (snd (asustor_Close c a)) = readC a @ [[]]
        \<and> btnC (snd (asustor_Close c a)) = btnC a @ [[]]
        \<and> fst (asustor_Listen_recv l (snd (asustor_Close c a))) = Returned ()
        \<and> fst (snd (asustor_Listen_recv l (snd (asustor_Close c a)))) = []"
      unfolding cl by simp
  qed
  have 6: "asustor_Write dev line t (snd (asustor_Close c a))
        = (Some ErrClosed, snd (asustor_Close c a))"
    unfolding asustor_Write_def by (rule asustor_write_closed) (rule asustor_Close_not_open)
  have 7: "asustorLCD_Write w arrived line t (snd (asustorLCD_Close c b))
        = (Returned (Some ErrClosed), snd (asustorLCD_Close c b))"
    using asustorLCD_Close_not_open [of c b] by (simp add: asustorLCD_Write_def)
  have 8: "open a \<longrightarrow> fst (asustor_Write dev line t a) \<noteq> Some ErrClosed"
    unfolding asustor_Write_def by (simp add: asustor_write_open)
  from 1 2 3 4 5 6 7 8 show ?thesis
    by blast
qed

theorem Close_idempotent_and_wakes_Listen_witness:
  "\<not> open closed_asustorLCD
   \<and> asustorLCD_Close None closed_asustorLCD = (None, closed_asustorLCD)
   \<and> \<not> open (fresh_asustor\<lparr>open := False\<rparr>)
   \<and> asustor_Close None (fresh_asustor\<lparr>open := False\<rparr>)
       = (Returned None, fresh_asustor\<lparr>open := False\<rparr>)
   \<and> open fresh_asustor \<and> con fresh_asustor
   \<and> length (readC fresh_asustor) < 100 \<and> length (btnC fresh_asustor) < 100
   \<and> asustor_Listen_recv keep_going fresh_asustor = (Blocked, [], fresh_asustor)
   \<and> fst (asustor_Close None fresh_asustor) = Returned None
   \<and> btnC (snd (asustor_Close None fresh_asustor)) = [[]]
   \<and> fst (asustor_Listen_recv keep_going (snd (asustor_Close None fresh_asustor))) = Returned ()
   \<and> fst (snd (asustor_Listen_recv keep_going (snd (asustor_Close None fresh_asustor)))) = []
   \<and> fst (asustor_Write silent 0 ''Hi'' fresh_asustor) \<noteq> Some ErrClosed"
proof -
  have c: "\<not> open closed_asustorLCD"
    by (simp add: closed_asustorLCD_def)
  have d: "\<not> open (fresh_asustor\<lparr>open := False\<rparr>)"
    by simp
  have e: "con fresh_asustor"
    by (simp add: fresh_asustor_def)
  have w: "asustor_Listen_recv keep_going fresh_asustor = (Blocked, [], fresh_asustor)"
    by (subst asustor_Listen_recv.simps) (simp add: recv_def fresh_room)
  from Close_idempotent_and_wakes_Listen [of closed_asustorLCD None None
      "fresh_asustor\<lparr>open := False\<rparr>"]
    Close_idempotent_and_wakes_Listen [of closed_asustorLCD None None fresh_asustor keep_going
      silent 0 "''Hi''"]
    c d e w fresh_room
  show ?thesis
    by simp
qed

lemma fresh_LCD_waits:
  "asustorLCD_Listen keep_going fresh_asustorLCD = (Blocked, [], fresh_asustorLCD)"
  by (simp add: asustorLCD_Listen_def asustorLCD_Listen_recv.simps recv_def fresh_room)

lemma fresh_LCD_closed:
  "asustorLCD_Close None fresh_asustorLCD
     = (None, fresh_asustorLCD\<lparr>open := False, iolog := [ConClose]\<rparr>)"
  by (simp add: asustorLCD_Close_def asustorLCD_forceClose_def Let_def conClose_def
      fresh_asustorLCD_def)

lemma fresh_LCD_Write_waits:
  "asustorLCD_Write (22, False) [] 0 ''Hi'' fresh_asustorLCD
     = (Blocked, fresh_asustorLCD\<lparr>iolog := [ConWrite (makemsg (asustorLCD_strToBytes 0 ''Hi''))]\<rparr>)"
proof -
  have "flush (asustorLCD_strToBytes 0 ''Hi'') (22, False) fresh_asustorLCD
      = (None, fresh_asustorLCD\<lparr>iolog := [ConWrite (makemsg (asustorLCD_strToBytes 0 ''Hi''))]\<rparr>)"
    using flush_ok [of "asustorLCD_strToBytes 0 ''Hi''" fresh_asustorLCD]
    by (simp add: length_write_frame_LCD) (simp add: fresh_asustorLCD_def)
  then show ?thesis
    by (simp add: asustorLCD_Write_def asustorLCD_isMsgSent_def asustorLCD_isMsgSent_recv_def
        recv_def fresh_room)
qed

text \<open>
  In asustor.go a \<^verbatim>\<open>Listen\<close> waiting on the empty button channel and a \<^verbatim>\<open>Write\<close>
  waiting on the empty ack channel are still waiting after \<^verbatim>\<open>Close\<close>: nothing is put on
  either channel, and the reader, whose read now fails, returns without sending.
\<close>

theorem close_leaves_waiters_counterexample:
  "fst (asustorLCD_Listen keep_going fresh_asustorLCD) = Blocked
   \<and> fst (asustorLCD_Listen_recv keep_going
        (snd (asustorLCD_Close None (snd (snd (asustorLCD_Listen keep_going fresh_asustorLCD))))))
       = Blocked
   \<and> fst (asustorLCD_Write (22, False) [] 0 ''Hi'' fresh_asustorLCD) = Blocked
   \<and> fst (asustorLCD_isMsgSent_recv
        (snd (asustorLCD_Close None
          (snd (asustorLCD_Write (22, False) [] 0 ''Hi'' fresh_asustorLCD))))) = Blocked
   \<and> asustorLCD_read [RErr] (snd (asustorLCD_Close None fresh_asustorLCD))
       = (Returned (), snd (asustorLCD_Close None fresh_asustorLCD))"
proof -
  have 1: "fst (asustorLCD_Listen_recv keep_going
      (fresh_asustorLCD\<lparr>open := False, iolog := [ConClose]\<rparr>)) = Blocked"
    by (subst asustorLCD_Listen_recv.simps) (simp add: recv_def fresh_room)
  have 2: "fst (asustorLCD_isMsgSent_recv
        (snd (asustorLCD_Close None
          (fresh_asustorLCD\<lparr>iolog := [ConWrite (makemsg (asustorLCD_strToBytes 0 ''Hi''))]\<rparr>))))
      = Blocked"
    by (simp add: asustorLCD_Close_def asustorLCD_forceClose_def Let_def conClose_def
        asustorLCD_isMsgSent_recv_def recv_def fresh_room)
  show ?thesis
    by (simp add: fresh_LCD_waits fresh_LCD_closed fresh_LCD_Write_waits 1 2)
qed

end
